theory Spec2Isabelle
  imports Main
begin

section \<open>Album Artister: the embedding\<close>

text \<open>
  The program (\<^verbatim>\<open>src/albumArtister.py\<close>) walks a directory tree, loads every file
  whose suffix is \<^verbatim>\<open>.mp3\<close> through the external tag library, and copies the artist
  tag into the album-artist tag of every loaded file that lacks one.

  Python exceptions are values: a function that can raise returns a sum, \<open>Inl\<close> the
  exception. A function with effects takes the world and returns it, also when it
  raises: what was printed or saved before the exception stays.
\<close>

subsection \<open>Exceptions\<close>

text \<open>
  The exception classes the program names or meets, with Python's built-in hierarchy
  (\<open>mro\<close>: the class and its bases up to \<^verbatim>\<open>Exception\<close>). \<open>OtherClass\<close> is any other
  class derived directly from \<^verbatim>\<open>Exception\<close> (a library's own error class).
  \<^verbatim>\<open>KeyboardInterrupt\<close> and \<^verbatim>\<open>SystemExit\<close>, which derive from \<^verbatim>\<open>BaseException\<close>
  only, come from outside the program and are not modelled.
\<close>

datatype py_class =
    Exception
  | TypeError
  | OSError
  | FileNotFoundError
  | NotADirectoryError
  | PermissionError
  | NameError
  | UnboundLocalError
  | RuntimeError
  | NotImplementedError
  | OtherClass string

datatype py_exc = Raised (exc_class: py_class) (exc_message: string)

fun mro :: "py_class \<Rightarrow> py_class list" where
  "mro Exception = [Exception]"
| "mro TypeError = [TypeError, Exception]"
| "mro OSError = [OSError, Exception]"
| "mro FileNotFoundError = [FileNotFoundError, OSError, Exception]"
| "mro NotADirectoryError = [NotADirectoryError, OSError, Exception]"
| "mro PermissionError = [PermissionError, OSError, Exception]"
| "mro NameError = [NameError, Exception]"
| "mro UnboundLocalError = [UnboundLocalError, NameError, Exception]"
| "mro RuntimeError = [RuntimeError, Exception]"
| "mro NotImplementedError = [NotImplementedError, RuntimeError, Exception]"
| "mro (OtherClass n) = [OtherClass n, Exception]"

text \<open>\<^verbatim>\<open>except C:\<close> handles an exception whose class is \<open>C\<close> or derives from it.\<close>

definition isinstance :: "py_exc \<Rightarrow> py_class \<Rightarrow> bool" where
  "isinstance e c = (c \<in> set (mro (exc_class e)))"

subsection \<open>Paths (pathlib, POSIX flavour)\<close>

text \<open>
  A path is its anchor (absolute or not) and its components. \<^verbatim>\<open>joinpath\<close> with an
  absolute argument returns the argument; with a relative one it appends the argument's
  components. A name that \<^verbatim>\<open>os.listdir\<close> returns is one component.
\<close>

datatype Path = Path (is_absolute: bool) (components: "string list")

definition joinpath :: "Path \<Rightarrow> Path \<Rightarrow> Path" where
  "joinpath p q =
     (if is_absolute q then q else Path (is_absolute p) (components p @ components q))"

definition path_of_name :: "string \<Rightarrow> Path" where
  "path_of_name n = Path False [n]"

text \<open>\<^verbatim>\<open>Path.name\<close>: the final component, the empty string when there is none.\<close>

definition name :: "Path \<Rightarrow> string" where
  "name p = (if components p = [] then [] else last (components p))"

text \<open>\<^verbatim>\<open>str.rfind\<close> for one character: the highest index where it stands, or \<open>-1\<close>.\<close>

definition rfind :: "string \<Rightarrow> char \<Rightarrow> int" where
  "rfind s c =
     (if c \<in> set s
      then int (length s) - 1 - int (length (takeWhile (\<lambda>x. x \<noteq> c) (rev s)))
      else - 1)"

text \<open>
  \<^verbatim>\<open>Path.suffix\<close>, as pathlib computes it:
  \<^verbatim>\<open>i = name.rfind('.'); name[i:] if 0 < i < len(name) - 1 else ''\<close>.
\<close>

definition suffix :: "Path \<Rightarrow> string" where
  "suffix p =
     (let nm = name p; i = rfind nm (CHR ''.'')
      in if 0 < i \<and> i < int (length nm) - 1 then drop (nat i) nm else [])"

definition MP3 :: string where
  "MP3 = ''.mp3''"

text \<open>The filter \<open>main\<close> passes: \<^verbatim>\<open>lambda file_path: file_path.suffix == MP3\<close>.\<close>

definition mp3_filter :: "Path \<Rightarrow> bool" where
  "mp3_filter file_path = (suffix file_path = MP3)"

subsection \<open>The file system\<close>

text \<open>
  A finite tree of regular files and directories; a directory lists its entries in
  the order \<^verbatim>\<open>os.listdir\<close> gives them. There are no symbolic links and every
  directory can be listed. \<open>walk\<close> follows components down from a node; a relative
  path is resolved from the working directory \<open>cwd\<close> (its components from the root).
  Components are entry names: \<open>walk\<close> looks every component up among the entries of
  the directory it has reached, so a path with a \<^verbatim>\<open>..\<close> component, which the operating
  system would resolve upwards, does not resolve here. The model covers the paths without
  such a component; the statements below say nothing true or false of the others.
\<close>

datatype fsnode = File | Dir "(string \<times> fsnode) list"

fun walk :: "fsnode \<Rightarrow> string list \<Rightarrow> py_exc + fsnode" where
  "walk node [] = Inr node"
| "walk File (c # cs) = Inl (Raised NotADirectoryError [])"
| "walk (Dir entries) (c # cs) =
     (case map_of entries c of
        None \<Rightarrow> Inl (Raised FileNotFoundError [])
      | Some child \<Rightarrow> walk child cs)"

definition resolve :: "fsnode \<Rightarrow> string list \<Rightarrow> Path \<Rightarrow> py_exc + fsnode" where
  "resolve fs cwd p = walk fs ((if is_absolute p then [] else cwd) @ components p)"

definition listdir :: "fsnode \<Rightarrow> string list \<Rightarrow> Path \<Rightarrow> py_exc + string list" where
  "listdir fs cwd p =
     (case resolve fs cwd p of
        Inl e \<Rightarrow> Inl e
      | Inr File \<Rightarrow> Inl (Raised NotADirectoryError [])
      | Inr (Dir entries) \<Rightarrow> Inr (map fst entries))"

text \<open>\<^verbatim>\<open>Path.is_dir\<close> answers False where the path does not resolve.\<close>

definition is_dir :: "fsnode \<Rightarrow> string list \<Rightarrow> Path \<Rightarrow> bool" where
  "is_dir fs cwd p = (case resolve fs cwd p of Inr (Dir entries) \<Rightarrow> True | _ \<Rightarrow> False)"

subsection \<open>File Discoverer: \<^verbatim>\<open>get_all_files\<close>\<close>

text \<open>
  Calling the filter: \<^verbatim>\<open>file_filter\<close> is typed \<^verbatim>\<open>Optional\<close>, and calling \<^verbatim>\<open>None\<close>
  raises \<^verbatim>\<open>TypeError\<close>.
\<close>

definition call_filter :: "(Path \<Rightarrow> bool) option \<Rightarrow> Path \<Rightarrow> py_exc + bool" where
  "call_filter file_filter p =
     (case file_filter of
        None \<Rightarrow> Inl (Raised TypeError [])
      | Some f \<Rightarrow> Inr (f p))"

text \<open>
  The first comprehension (lines 61-63): the filter is called on every listed entry,
  in order; the first call that raises ends the comprehension.
\<close>

fun select_files :: "(Path \<Rightarrow> bool) option \<Rightarrow> Path list \<Rightarrow> py_exc + Path list" where
  "select_files file_filter [] = Inr []"
| "select_files file_filter (p # ps) =
     (case call_filter file_filter p of
        Inl e \<Rightarrow> Inl e
      | Inr keep \<Rightarrow>
          (case select_files file_filter ps of
             Inl e \<Rightarrow> Inl e
           | Inr rest \<Rightarrow> Inr (if keep then p # rest else rest)))"

text \<open>
  The loop of lines 67-69: \<^verbatim>\<open>files.extend(rec(sub_dir))\<close> for each sub-directory in
  order, where \<open>rec\<close> is the recursive call; an exception of a call ends the loop.
\<close>

fun extend_all :: "('a \<Rightarrow> py_exc + 'b list) \<Rightarrow> 'a list \<Rightarrow> 'b list \<Rightarrow> py_exc + 'b list" where
  "extend_all rec [] files = Inr files"
| "extend_all rec (sub_dir # sub_dirs) files =
     (case rec sub_dir of
        Inl e \<Rightarrow> Inl e
      | Inr found \<Rightarrow> extend_all rec sub_dirs (files @ found))"

lemma extend_all_cong [fundef_cong]:
  "sub_dirs = sub_dirs' \<Longrightarrow> files = files' \<Longrightarrow>
   (\<And>d. d \<in> set sub_dirs' \<Longrightarrow> f d = g d) \<Longrightarrow>
   extend_all f sub_dirs files = extend_all g sub_dirs' files'"
proof (induction sub_dirs' arbitrary: sub_dirs files files')
  case Nil
  then show ?case by simp
next
  case (Cons d ds)
  then show ?case by (simp split: sum.splits)
qed

text \<open>
  Lines 54-70. Both comprehensions join the directory with each listed name; the loop
  joins the directory once more with the already joined sub-directory path (line 68).
\<close>

function get_all_files ::
  "fsnode \<Rightarrow> string list \<Rightarrow> Path \<Rightarrow> (Path \<Rightarrow> bool) option \<Rightarrow> py_exc + Path list" where
  "get_all_files fs cwd dir_path file_filter =
     (case listdir fs cwd dir_path of
        Inl e \<Rightarrow> Inl e
      | Inr names \<Rightarrow>
          (case select_files file_filter
                  (map (\<lambda>file. joinpath dir_path (path_of_name file)) names) of
             Inl e \<Rightarrow> Inl e
           | Inr files \<Rightarrow>
               extend_all
                 (\<lambda>sub_dir. get_all_files fs cwd (joinpath dir_path sub_dir) file_filter)
                 (filter (is_dir fs cwd)
                    (map (\<lambda>file. joinpath dir_path (path_of_name file)) names))
                 files))"
  by pat_completeness auto

lemma walk_append:
  "walk node (xs @ ys) = (case walk node xs of Inl e \<Rightarrow> Inl e | Inr m \<Rightarrow> walk m ys)"
proof (induction node xs rule: walk.induct)
  case (1 node)
  then show ?case by simp
next
  case (2 c cs)
  then show ?case by simp
next
  case (3 entries c cs)
  then show ?case by (simp split: option.splits)
qed

lemma size_child: "map_of entries c = Some child \<Longrightarrow> size child < size (Dir entries)"
proof -
  assume "map_of entries c = Some child"
  then have "(c, child) \<in> set entries" by (rule map_of_SomeD)
  then have "size_prod (\<lambda>_. 0) size (c, child) \<le> size_list (size_prod (\<lambda>_. 0) size) entries"
    by (rule size_list_estimation') simp
  then show ?thesis by simp
qed

lemma walk_smaller:
  "walk node cs = Inr m \<Longrightarrow> cs \<noteq> [] \<Longrightarrow> size m < size node"
proof (induction node cs rule: walk.induct)
  case (1 node)
  then show ?case by simp
next
  case (2 c cs)
  then show ?case by simp
next
  case (3 entries c cs)
  then obtain child where ch: "map_of entries c = Some child" and w: "walk child cs = Inr m"
    by (auto split: option.splits)
  show ?case
  proof (cases "cs = []")
    case True
    with w ch show ?thesis using size_child by fastforce
  next
    case False
    with 3 ch w have "size m < size child" by simp
    with size_child[OF ch] show ?thesis by simp
  qed
qed

definition weight :: "fsnode \<Rightarrow> string list \<Rightarrow> Path \<Rightarrow> nat" where
  "weight fs cwd p = (case resolve fs cwd p of Inl e \<Rightarrow> 0 | Inr node \<Rightarrow> Suc (size node))"

lemma weight_descends:
  assumes "listdir fs cwd dir_path = Inr names"
  shows "weight fs cwd (joinpath dir_path (joinpath dir_path (path_of_name entry)))
         < weight fs cwd dir_path"
proof -
  from assms obtain entries where r: "resolve fs cwd dir_path = Inr (Dir entries)"
    by (auto simp: listdir_def split: sum.splits fsnode.splits)
  let ?q = "joinpath dir_path (joinpath dir_path (path_of_name entry))"
  let ?base = "(if is_absolute dir_path then [] else cwd) @ components dir_path"
  obtain rest where rest: "rest \<noteq> []" and q: "resolve fs cwd ?q = walk fs (?base @ rest)"
    by (cases "is_absolute dir_path") (auto simp: resolve_def joinpath_def path_of_name_def)
  have b: "walk fs ?base = Inr (Dir entries)"
    using r by (simp add: resolve_def)
  have "resolve fs cwd ?q = walk (Dir entries) rest"
    unfolding q by (simp only: walk_append[of fs ?base rest] b sum.case)
  then show ?thesis
    using r rest walk_smaller[of "Dir entries" rest]
    by (cases "walk (Dir entries) rest") (auto simp: weight_def)
qed

termination get_all_files
proof (relation "measure (\<lambda>(fs, cwd, p, flt). weight fs cwd p)")
  show "wf (measure (\<lambda>(fs, cwd, p, flt). weight fs cwd p))" by simp
next
  fix fs cwd dir_path file_filter names files sub_dir
  assume l: "listdir fs cwd dir_path = Inr names"
    and m: "sub_dir \<in> set (filter (is_dir fs cwd)
              (map (\<lambda>file. joinpath dir_path (path_of_name file)) names))"
  from m obtain entry where "sub_dir = joinpath dir_path (path_of_name entry)" by auto
  with weight_descends[OF l, of entry]
  show "((fs, cwd, joinpath dir_path sub_dir, file_filter), fs, cwd, dir_path, file_filter)
        \<in> measure (\<lambda>(fs, cwd, p, flt). weight fs cwd p)"
    by simp
qed

declare get_all_files.simps [simp del]

subsection \<open>The tag library\<close>

text \<open>
  The tag library is an external collaborator and not part of the repository; the
  program uses five of its operations, which section 6 of the spec lists:
  \<^verbatim>\<open>load(path) -> Handle | Error\<close>, \<^verbatim>\<open>handle.has(fieldName) -> bool\<close>,
  \<^verbatim>\<open>handle.get(fieldName) -> value\<close>, \<^verbatim>\<open>handle.set(fieldName, value)\<close> and
  \<^verbatim>\<open>handle.save() -> Error?\<close>. A handle is the path it was loaded from and its
  in-memory tag map.
\<close>

type_synonym tag_map = "string \<rightharpoonup> string"

record AudioFile =
  filename :: Path
  tags :: tag_map

definition ARTIST :: string where
  "ARTIST = ''artist''"

definition ALBUM_ARTIST :: string where
  "ALBUM_ARTIST = ''album_artist''"

definition TITLE :: string where
  "TITLE = ''title''"

text \<open>
  What the program prints, one constructor per \<^verbatim>\<open>print\<close> of the source with the
  values its f-string interpolates:
  \<^item> \<open>FixedMissingTag t\<close>: \<^verbatim>\<open>Fixed missing tag in song: {song[TITLE]}\<close>
  \<^item> \<open>FinishedFixing n\<close>: \<^verbatim>\<open>Finished fixing all songs ({fixed_songs} songs fixed)\<close>
  \<^item> \<open>NotAMusicFile p\<close>: \<^verbatim>\<open>File is not a music file: {path}\<close>
  \<^item> \<open>PermissionDenied p\<close>: \<^verbatim>\<open>Permission error: {path}\<close>
  \<^item> \<open>SomethingWentWrong e p\<close>: \<^verbatim>\<open>Something went wrong: {e} Path: {path}\<close>
  \<^item> \<open>FinishedScanning n\<close>: \<^verbatim>\<open>Finished scanning all files ({len(songs)} songs found)\<close>
\<close>

datatype message =
    FixedMissingTag string
  | FinishedFixing nat
  | NotAMusicFile Path
  | PermissionDenied Path
  | SomethingWentWrong py_exc Path
  | FinishedScanning nat

text \<open>
  The world outside the process: for every path, what the library finds when it opens
  the file there (the tag map of an audio file, or the exception its load raises);
  for every path, the exception a save to it raises, if any; and standard output.
\<close>

record world =
  disk :: "Path \<Rightarrow> py_exc + tag_map"
  save_error :: "Path \<Rightarrow> py_exc option"
  stdout :: "message list"

definition py_print :: "message \<Rightarrow> world \<Rightarrow> world" where
  "py_print m w = w\<lparr>stdout := stdout w @ [m]\<rparr>"

text \<open>
  Modelled from the spec: \<^verbatim>\<open>music_tag.load_file\<close>, the library's
  \<^verbatim>\<open>load(path) -> Handle | Error\<close>, which parses a file into a tag map or raises.
\<close>

definition load_file :: "Path \<Rightarrow> world \<Rightarrow> py_exc + AudioFile" where
  "load_file path w =
     (case disk w path of
        Inl e \<Rightarrow> Inl e
      | Inr t \<Rightarrow> Inr \<lparr>filename = path, tags = t\<rparr>)"

text \<open>
  Modelled from the spec: \<^verbatim>\<open>key in song\<close>, the library's
  \<^verbatim>\<open>handle.has(fieldName) -> bool\<close>, a presence check independent of value: the
  field key exists in the file's tag map.
\<close>

definition contains :: "AudioFile \<Rightarrow> string \<Rightarrow> bool" where
  "contains song key = (tags song key \<noteq> None)"

text \<open>
  Modelled from the spec: \<^verbatim>\<open>song[key]\<close>, the library's
  \<^verbatim>\<open>handle.get(fieldName) -> value\<close>. The spec gives it no error: what it returns is
  an item, which holds the value of the field (\<open>Some v\<close>) or, for an absent field,
  nothing (\<open>None\<close>).
\<close>

definition getitem :: "AudioFile \<Rightarrow> string \<Rightarrow> string option" where
  "getitem song key = tags song key"

text \<open>
  Modelled from the spec: \<^verbatim>\<open>song[key] = value\<close>, the library's
  \<^verbatim>\<open>handle.set(fieldName, value)\<close>, for an item that \<^verbatim>\<open>song[...]\<close> returned: the
  field takes what the item holds. An item that holds a value makes the field present
  with that value; the item of an absent field leaves the field absent, so that copying
  an absent artist gives no album artist. The file is not touched.
\<close>

definition setitem :: "AudioFile \<Rightarrow> string \<Rightarrow> string option \<Rightarrow> AudioFile" where
  "setitem song key v = song\<lparr>tags := (tags song)(key := v)\<rparr>"

text \<open>An item in an f-string: its value, the empty string when it holds none.\<close>

definition str_item :: "string option \<Rightarrow> string" where
  "str_item v = (case v of None \<Rightarrow> [] | Some t \<Rightarrow> t)"

text \<open>
  Modelled from the spec: \<^verbatim>\<open>song.save()\<close>, the library's
  \<^verbatim>\<open>handle.save() -> Error?\<close>: it writes the in-memory tag map back to the file the
  handle was loaded from, or raises and leaves the file as it was.
\<close>

definition save :: "AudioFile \<Rightarrow> world \<Rightarrow> (py_exc + unit) \<times> world" where
  "save song w =
     (case save_error w (filename song) of
        Some e \<Rightarrow> (Inl e, w)
      | None \<Rightarrow> (Inr (), w\<lparr>disk := (disk w)(filename song := Inr (tags song))\<rparr>))"

subsection \<open>Song Loader: \<^verbatim>\<open>load_song\<close> and \<^verbatim>\<open>load_all_songs\<close>\<close>

text \<open>
  Lines 86-103. The \<^verbatim>\<open>except\<close> clauses are tried in order; an exception none of them
  handles would leave the function (\<open>Inl\<close>). After a handler the function falls off
  its end and returns \<^verbatim>\<open>None\<close>.
\<close>

definition load_song :: "Path \<Rightarrow> world \<Rightarrow> (py_exc + AudioFile option) \<times> world" where
  "load_song path w =
     (case load_file path w of
        Inr song \<Rightarrow> (Inr (Some song), w)
      | Inl e \<Rightarrow>
          if isinstance e UnboundLocalError then (Inr None, py_print (NotAMusicFile path) w)
          else if isinstance e NotImplementedError then (Inr None, py_print (NotAMusicFile path) w)
          else if isinstance e PermissionError then (Inr None, py_print (PermissionDenied path) w)
          else if isinstance e Exception then (Inr None, py_print (SomethingWentWrong e path) w)
          else (Inl e, w))"

text \<open>Lines 79-83: the loop appends what \<^verbatim>\<open>load_song\<close> returned, whatever it is.\<close>

fun load_all_songs_loop ::
  "Path list \<Rightarrow> AudioFile option list \<Rightarrow> world \<Rightarrow> (py_exc + AudioFile option list) \<times> world" where
  "load_all_songs_loop [] songs w = (Inr songs, w)"
| "load_all_songs_loop (file_path # files) songs w =
     (case load_song file_path w of
        (Inl e, w1) \<Rightarrow> (Inl e, w1)
      | (Inr song, w1) \<Rightarrow> load_all_songs_loop files (songs @ [song]) w1)"

definition load_all_songs ::
  "Path list \<Rightarrow> world \<Rightarrow> (py_exc + AudioFile option list) \<times> world" where
  "load_all_songs files w = load_all_songs_loop files [] w"

subsection \<open>Tag Fixer: \<^verbatim>\<open>set_album_artist\<close> and \<^verbatim>\<open>fix_album_artist_tag\<close>\<close>

text \<open>
  Lines 38-40. The Python function mutates the handle and returns \<^verbatim>\<open>None\<close>; the
  model returns the handle as mutated.
\<close>

definition set_album_artist :: "AudioFile \<Rightarrow> world \<Rightarrow> (py_exc + AudioFile) \<times> world" where
  "set_album_artist song w =
     (let artist = getitem song ARTIST;
          song' = setitem song ALBUM_ARTIST artist
      in case save song' w of
           (Inl e, w1) \<Rightarrow> (Inl e, w1)
         | (Inr u, w1) \<Rightarrow> (Inr song', w1))"

text \<open>
  The body of the loop, lines 26-29, for one element of \<^verbatim>\<open>songs\<close> and the running
  \<^verbatim>\<open>fixed_songs\<close>. The element is a handle or \<^verbatim>\<open>None\<close>; \<^verbatim>\<open>ALBUM_ARTIST not in None\<close>
  raises \<^verbatim>\<open>TypeError\<close>.
\<close>

definition fix_song ::
  "AudioFile option \<Rightarrow> nat \<Rightarrow> world \<Rightarrow> (py_exc + AudioFile option \<times> nat) \<times> world" where
  "fix_song entry fixed_songs w =
     (case entry of
        None \<Rightarrow> (Inl (Raised TypeError []), w)
      | Some song \<Rightarrow>
          if \<not> contains song ALBUM_ARTIST then
            (case set_album_artist song w of
               (Inl e, w1) \<Rightarrow> (Inl e, w1)
             | (Inr song', w1) \<Rightarrow>
                 (Inr (Some song', fixed_songs + 1),
                  py_print (FixedMissingTag (str_item (getitem song' TITLE))) w1))
          else (Inr (Some song, fixed_songs), w))"

text \<open>The loop of line 25; it returns the handles as the loop left them and the count.\<close>

fun fix_loop ::
  "AudioFile option list \<Rightarrow> nat \<Rightarrow> world \<Rightarrow> (py_exc + AudioFile option list \<times> nat) \<times> world" where
  "fix_loop [] fixed_songs w = (Inr ([], fixed_songs), w)"
| "fix_loop (entry # songs) fixed_songs w =
     (case fix_song entry fixed_songs w of
        (Inl e, w1) \<Rightarrow> (Inl e, w1)
      | (Inr (entry', fixed_songs'), w1) \<Rightarrow>
          (case fix_loop songs fixed_songs' w1 of
             (Inl e, w2) \<Rightarrow> (Inl e, w2)
           | (Inr (songs', fixed_songs''), w2) \<Rightarrow> (Inr (entry' # songs', fixed_songs''), w2)))"

text \<open>
  Lines 24-30. The Python function returns \<^verbatim>\<open>None\<close>; the model returns the handles of
  the list as the run left them.
\<close>

definition fix_album_artist_tag ::
  "AudioFile option list \<Rightarrow> world \<Rightarrow> (py_exc + AudioFile option list) \<times> world" where
  "fix_album_artist_tag songs w =
     (case fix_loop songs 0 w of
        (Inl e, w1) \<Rightarrow> (Inl e, w1)
      | (Inr (songs', fixed_songs), w1) \<Rightarrow> (Inr songs', py_print (FinishedFixing fixed_songs) w1))"

subsection \<open>The entry point: \<^verbatim>\<open>main\<close>\<close>

text \<open>
  Lines 110-114, for the path given on the command line. The file system and the
  working directory are the environment of the run.
\<close>

definition main ::
  "fsnode \<Rightarrow> string list \<Rightarrow> Path \<Rightarrow> world \<Rightarrow> (py_exc + AudioFile option list) \<times> world" where
  "main fs cwd dir_path w =
     (case get_all_files fs cwd dir_path (Some mp3_filter) of
        Inl e \<Rightarrow> (Inl e, w)
      | Inr files \<Rightarrow>
          (case load_all_songs files w of
             (Inl e, w1) \<Rightarrow> (Inl e, w1)
           | (Inr songs, w1) \<Rightarrow>
               fix_album_artist_tag songs (py_print (FinishedScanning (length songs)) w1)))"

section \<open>Auxiliary definitions\<close>

text \<open>
  Names for what the proofs below talk about. None of them is part of the program.
  \<open>load_message\<close> is the message \<open>load_song\<close> prints for an exception,
  \<open>loaded\<close> the entry \<open>load_all_songs\<close> appends for a path, \<open>load_messages\<close>
  what it prints over a list of paths, \<open>fixed_handle\<close> a handle after the Fixer
  has passed over it, and \<open>on_disk\<close> says that the file at a path is an audio file
  with an album-artist field.
\<close>

definition load_message :: "Path \<Rightarrow> py_exc \<Rightarrow> message" where
  "load_message path e =
     (if isinstance e UnboundLocalError \<or> isinstance e NotImplementedError then NotAMusicFile path
      else if isinstance e PermissionError then PermissionDenied path
      else SomethingWentWrong e path)"

definition loaded :: "(Path \<Rightarrow> py_exc + tag_map) \<Rightarrow> Path \<Rightarrow> AudioFile option" where
  "loaded d path =
     (case d path of Inl e \<Rightarrow> None | Inr t \<Rightarrow> Some \<lparr>filename = path, tags = t\<rparr>)"

fun load_messages :: "(Path \<Rightarrow> py_exc + tag_map) \<Rightarrow> Path list \<Rightarrow> message list" where
  "load_messages d [] = []"
| "load_messages d (p # ps) =
     (case d p of Inl e \<Rightarrow> [load_message p e] | Inr t \<Rightarrow> []) @ load_messages d ps"

definition fixed_handle :: "AudioFile \<Rightarrow> AudioFile" where
  "fixed_handle song =
     (if contains song ALBUM_ARTIST then song
      else setitem song ALBUM_ARTIST (getitem song ARTIST))"

definition on_disk :: "(Path \<Rightarrow> py_exc + tag_map) \<Rightarrow> Path \<Rightarrow> bool" where
  "on_disk d p = (case d p of Inl e \<Rightarrow> False | Inr t \<Rightarrow> t ALBUM_ARTIST \<noteq> None)"

text \<open>The handles of a list that have no album-artist field, in the order of the list.\<close>

fun lacking :: "AudioFile option list \<Rightarrow> AudioFile list" where
  "lacking [] = []"
| "lacking (None # songs) = lacking songs"
| "lacking (Some h # songs) =
     (if contains h ALBUM_ARTIST then lacking songs else h # lacking songs)"

text \<open>
  What the Discoverer is meant to return, by recursion on the tree below a directory
  \<open>p\<close>, in the order of the code (the entries of a directory first, then what lies
  below each of them): \<open>entries_below\<close> every entry, \<open>files_below\<close> the regular
  files, \<open>dirs_below\<close> the directories. \<open>distinct_names\<close> says that no directory
  lists a name twice.
\<close>

fun entries_below :: "Path \<Rightarrow> fsnode \<Rightarrow> Path list" where
  "entries_below p File = []"
| "entries_below p (Dir entries) =
     map (\<lambda>(n, c). joinpath p (path_of_name n)) entries
     @ concat (map (\<lambda>(n, c). entries_below (joinpath p (path_of_name n)) c) entries)"

fun files_below :: "Path \<Rightarrow> fsnode \<Rightarrow> Path list" where
  "files_below p File = []"
| "files_below p (Dir entries) =
     map (\<lambda>(n, c). joinpath p (path_of_name n)) (filter (\<lambda>(n, c). c = File) entries)
     @ concat (map (\<lambda>(n, c). files_below (joinpath p (path_of_name n)) c) entries)"

fun dirs_below :: "Path \<Rightarrow> fsnode \<Rightarrow> Path list" where
  "dirs_below p File = []"
| "dirs_below p (Dir entries) =
     map (\<lambda>(n, c). joinpath p (path_of_name n)) (filter (\<lambda>(n, c). c \<noteq> File) entries)
     @ concat (map (\<lambda>(n, c). dirs_below (joinpath p (path_of_name n)) c) entries)"

fun distinct_names :: "fsnode \<Rightarrow> bool" where
  "distinct_names File = True"
| "distinct_names (Dir entries) =
     (distinct (map fst entries) \<and> list_all (\<lambda>(n, c). distinct_names c) entries)"

subsection \<open>Example runs\<close>

text \<open>
  The scenario of section 8 of the spec: a directory with \<^verbatim>\<open>a.mp3\<close> (artist Bob, no
  album artist) and \<^verbatim>\<open>b.mp3\<close> (artist Bob, album artist Bob).
\<close>

definition music_root :: Path where
  "music_root = Path True [''music'']"

definition a_mp3 :: Path where
  "a_mp3 = Path True [''music'', ''a.mp3'']"

definition b_mp3 :: Path where
  "b_mp3 = Path True [''music'', ''b.mp3'']"

definition scenario_fs :: fsnode where
  "scenario_fs = Dir [(''music'', Dir [(''a.mp3'', File), (''b.mp3'', File)])]"

definition song_a :: AudioFile where
  "song_a = \<lparr>filename = a_mp3, tags = [''artist'' \<mapsto> ''Bob'', ''title'' \<mapsto> ''Song A'']\<rparr>"

definition song_b :: AudioFile where
  "song_b = \<lparr>filename = b_mp3, tags = [''artist'' \<mapsto> ''Bob'', ''album_artist'' \<mapsto> ''Bob'']\<rparr>"

definition scenario_world :: world where
  "scenario_world =
     \<lparr>disk = (\<lambda>p. if p = a_mp3 then Inr (tags song_a)
                  else if p = b_mp3 then Inr (tags song_b)
                  else Inl (Raised FileNotFoundError [])),
      save_error = (\<lambda>p. None),
      stdout = []\<rparr>"

text \<open>The same directory where no file can be written.\<close>

definition read_only_world :: world where
  "read_only_world =
     \<lparr>disk = (\<lambda>p. if p = a_mp3 then Inr (tags song_a)
                  else if p = b_mp3 then Inr (tags song_b)
                  else Inl (Raised FileNotFoundError [])),
      save_error = (\<lambda>p. Some (Raised PermissionError [])),
      stdout = []\<rparr>"

text \<open>A directory with one audio file that has a title and no artist.\<close>

definition n_mp3 :: Path where
  "n_mp3 = Path True [''music'', ''n.mp3'']"

definition single_fs :: fsnode where
  "single_fs = Dir [(''music'', Dir [(''n.mp3'', File)])]"

definition song_n :: AudioFile where
  "song_n = \<lparr>filename = n_mp3, tags = [''title'' \<mapsto> ''Song N'']\<rparr>"

definition no_artist_world :: world where
  "no_artist_world =
     \<lparr>disk = (\<lambda>p. if p = n_mp3 then Inr (tags song_n)
                  else Inl (Raised FileNotFoundError [])),
      save_error = (\<lambda>p. None),
      stdout = []\<rparr>"

text \<open>The same directory where \<^verbatim>\<open>a.mp3\<close> is not an audio file.\<close>

definition broken_world :: world where
  "broken_world =
     \<lparr>disk = (\<lambda>p. if p = a_mp3 then Inl (Raised NotImplementedError [])
                  else if p = b_mp3 then Inr [''artist'' \<mapsto> ''Bob'']
                  else Inl (Raised FileNotFoundError [])),
      save_error = (\<lambda>p. None),
      stdout = []\<rparr>"

text \<open>
  A directory \<^verbatim>\<open>music\<close> with a sub-directory \<^verbatim>\<open>album\<close> holding one file; the
  working directory is the root of the tree.
\<close>

definition nested_fs :: fsnode where
  "nested_fs = Dir [(''music'', Dir [(''album'', Dir [(''a.mp3'', File)])])]"

text \<open>A directory whose sub-directory is named \<^verbatim>\<open>live.mp3\<close>.\<close>

definition live_fs :: fsnode where
  "live_fs = Dir [(''music'', Dir [(''live.mp3'', Dir [(''t.mp3'', File)])])]"

text \<open>A directory with names that differ from \<^verbatim>\<open>x.mp3\<close> in case, stem or suffix.\<close>

definition mixed_fs :: fsnode where
  "mixed_fs =
     Dir [(''music'',
           Dir [(''a.mp3'', File), (''c.MP3'', File), (''.mp3'', File), (''notes.txt'', File),
                (''d.mp3.bak'', File)])]"

section \<open>Properties\<close>

subsection \<open>Evaluating the traversal\<close>

text \<open>
  The recursive call of \<open>get_all_files\<close> stands under a \<open>\<lambda>\<close>; this rule keeps the
  simplifier from unfolding it there, so that it is unfolded only once \<open>extend_all\<close>
  applies it to a sub-directory.
\<close>

lemma extend_all_weak_cong:
  "sub_dirs = sub_dirs' \<Longrightarrow> files = files' \<Longrightarrow>
   extend_all f sub_dirs files = extend_all f sub_dirs' files'"
  by simp

lemmas path_defs =
  joinpath_def path_of_name_def name_def rfind_def suffix_def MP3_def mp3_filter_def

lemmas fs_defs = resolve_def listdir_def is_dir_def call_filter_def

lemmas tag_defs =
  ARTIST_def ALBUM_ARTIST_def TITLE_def py_print_def load_file_def contains_def
  getitem_def setitem_def str_item_def save_def isinstance_def

lemmas run_defs =
  load_song_def load_all_songs_def set_album_artist_def fix_song_def
  fix_album_artist_tag_def

lemmas example_defs =
  music_root_def a_mp3_def b_mp3_def scenario_fs_def song_a_def song_b_def
  scenario_world_def broken_world_def nested_fs_def live_fs_def mixed_fs_def
  read_only_world_def n_mp3_def single_fs_def song_n_def no_artist_world_def

lemma scenario_files:
  "get_all_files scenario_fs [] music_root (Some mp3_filter) = Inr [a_mp3, b_mp3]"
  by (simp add: get_all_files.simps path_defs fs_defs example_defs cong: extend_all_weak_cong)

lemma scenario_root: "resolve scenario_fs [] music_root = Inr (Dir [(''a.mp3'', File), (''b.mp3'', File)])"
  by (simp add: resolve_def example_defs)

subsection \<open>The Loader\<close>

lemma Exception_in_mro: "Exception \<in> set (mro c)"
  by (cases c) simp_all

lemma isinstance_Exception: "isinstance e Exception"
  by (simp add: isinstance_def Exception_in_mro)

lemma load_song_eq:
  "load_song path w =
     (case disk w path of
        Inl e \<Rightarrow> (Inr None, py_print (load_message path e) w)
      | Inr t \<Rightarrow> (Inr (Some \<lparr>filename = path, tags = t\<rparr>), w))"
  by (simp add: load_song_def load_file_def load_message_def isinstance_Exception
        split: sum.splits)

lemma load_all_songs_loop_eq:
  "load_all_songs_loop files songs w =
     (Inr (songs @ map (loaded (disk w)) files),
      w\<lparr>stdout := stdout w @ load_messages (disk w) files\<rparr>)"
proof (induction files arbitrary: songs w)
  case Nil
  then show ?case by simp
next
  case (Cons p ps)
  show ?case
  proof (cases "disk w p")
    case (Inl e)
    then show ?thesis
      by (simp add: load_song_eq Cons.IH loaded_def py_print_def)
  next
    case (Inr t)
    then show ?thesis
      by (simp add: load_song_eq Cons.IH loaded_def)
  qed
qed

lemma load_all_songs_eq:
  "load_all_songs files w =
     (Inr (map (loaded (disk w)) files),
      w\<lparr>stdout := stdout w @ load_messages (disk w) files\<rparr>)"
  by (simp add: load_all_songs_def load_all_songs_loop_eq)

lemma load_messages_on_disk:
  "(\<And>p. p \<in> set files \<Longrightarrow> on_disk d p) \<Longrightarrow> load_messages d files = []"
proof (induction files)
  case Nil
  then show ?case by simp
next
  case (Cons p ps)
  from Cons.prems[of p] obtain t where "d p = Inr t"
    by (auto simp: on_disk_def split: sum.splits)
  moreover have "load_messages d ps = []"
    using Cons.IH Cons.prems by simp
  ultimately show ?case by simp
qed

lemma loaded_on_disk:
  "on_disk d p \<Longrightarrow> \<exists>h. loaded d p = Some h \<and> contains h ALBUM_ARTIST"
  by (auto simp: on_disk_def loaded_def contains_def split: sum.splits)

lemma loaded_filename: "loaded d p = Some h \<Longrightarrow> filename h = p \<and> d p = Inr (tags h)"
  by (auto simp: loaded_def split: sum.splits)

subsection \<open>The Fixer\<close>

lemma fix_song_Inr:
  "fix_song entry n w = (Inr (entry', n'), w') \<Longrightarrow>
     \<exists>song. entry = Some song \<and> entry' = Some (fixed_handle song)"
  by (auto simp: fix_song_def fixed_handle_def set_album_artist_def Let_def
        split: option.splits if_splits prod.splits sum.splits)

lemma fix_loop_handles:
  "fix_loop songs n w = (Inr (songs', n'), w') \<Longrightarrow>
     length songs' = length songs \<and>
     (\<forall>i<length songs. \<exists>song. songs ! i = Some song \<and> songs' ! i = Some (fixed_handle song))"
proof (induction songs arbitrary: n w songs')
  case Nil
  then show ?case by simp
next
  case (Cons entry songs)
  from Cons.prems obtain entry' n1 w1 rest' where
    a: "fix_song entry n w = (Inr (entry', n1), w1)" and
    b: "fix_loop songs n1 w1 = (Inr (rest', n'), w')" and
    c: "songs' = entry' # rest'"
    by (auto split: prod.splits sum.splits)
  from Cons.IH[OF b] fix_song_Inr[OF a] c show ?case
    by (auto simp: nth_Cons split: nat.splits)
qed

lemma fix_album_artist_tag_handles:
  assumes "fix_album_artist_tag songs w = (Inr songs', w')" "i < length songs"
  shows "\<exists>song. songs ! i = Some song \<and> songs' ! i = Some (fixed_handle song)"
proof -
  from assms(1) obtain n w1 where "fix_loop songs 0 w = (Inr (songs', n), w1)"
    by (auto simp: fix_album_artist_tag_def split: prod.splits sum.splits)
  from fix_loop_handles[OF this] assms(2) show ?thesis by simp
qed

lemma fix_song_set:
  assumes "\<not> contains song ALBUM_ARTIST" "save_error w (filename song) = None"
  shows "fix_song (Some song) n w =
           (Inr (Some (fixed_handle song), n + 1),
            py_print (FixedMissingTag (str_item (getitem song TITLE)))
              (w\<lparr>disk := (disk w)(filename song := Inr (tags (fixed_handle song)))\<rparr>))"
  using assms
  by (simp add: fix_song_def set_album_artist_def save_def Let_def fixed_handle_def
        setitem_def getitem_def ALBUM_ARTIST_def TITLE_def)

lemma fix_song_keep:
  "contains song ALBUM_ARTIST \<Longrightarrow> fix_song (Some song) n w = (Inr (Some song, n), w)"
  by (simp add: fix_song_def)

lemma fix_song_raises:
  "\<not> contains song ALBUM_ARTIST \<Longrightarrow> save_error w (filename song) = Some e \<Longrightarrow>
   fix_song (Some song) n w = (Inl e, w)"
  by (simp add: fix_song_def set_album_artist_def save_def Let_def setitem_def)

lemma fix_song_disk:
  assumes "fix_song entry n w = (Inr (entry', n'), w')"
  shows "\<exists>song. entry = Some song
           \<and> (if contains song ALBUM_ARTIST then w' = w \<and> n' = n
               else disk w' (filename song) = Inr (tags (fixed_handle song))
                  \<and> (\<forall>p. p \<noteq> filename song \<longrightarrow> disk w' p = disk w p))"
proof -
  from assms obtain song where e: "entry = Some song"
    by (cases entry) (auto simp: fix_song_def)
  have "if contains song ALBUM_ARTIST then w' = w \<and> n' = n
        else disk w' (filename song) = Inr (tags (fixed_handle song))
           \<and> (\<forall>p. p \<noteq> filename song \<longrightarrow> disk w' p = disk w p)"
  proof (cases "contains song ALBUM_ARTIST")
    case True
    with assms e show ?thesis by (simp add: fix_song_keep)
  next
    case False
    show ?thesis
    proof (cases "save_error w (filename song)")
      case None
      from assms e fix_song_set[OF False None, of n] have
        "w' = py_print (FixedMissingTag (str_item (getitem song TITLE)))
                (w\<lparr>disk := (disk w)(filename song := Inr (tags (fixed_handle song)))\<rparr>)"
        by simp
      with False show ?thesis by (simp add: py_print_def)
    next
      case (Some x)
      with assms e fix_song_raises[OF False Some, of n] show ?thesis by simp
    qed
  qed
  with e show ?thesis by blast
qed

lemma fixed_handle_on_disk:
  "\<not> contains song ALBUM_ARTIST \<Longrightarrow> tags song ARTIST \<noteq> None \<Longrightarrow>
   tags (fixed_handle song) ALBUM_ARTIST \<noteq> None"
  by (simp add: fixed_handle_def setitem_def getitem_def)

lemma fix_song_mono:
  assumes "fix_song entry n w = (Inr (entry', n'), w')" "on_disk (disk w) p"
    and "\<And>song. entry = Some song \<Longrightarrow> \<not> contains song ALBUM_ARTIST \<Longrightarrow> tags song ARTIST \<noteq> None"
  shows "on_disk (disk w') p"
proof -
  from fix_song_disk[OF assms(1)] obtain song where
    e: "entry = Some song" and
    s: "if contains song ALBUM_ARTIST then w' = w \<and> n' = n
        else disk w' (filename song) = Inr (tags (fixed_handle song))
           \<and> (\<forall>p. p \<noteq> filename song \<longrightarrow> disk w' p = disk w p)"
    by blast
  show ?thesis
  proof (cases "contains song ALBUM_ARTIST")
    case True
    with s assms(2) show ?thesis by simp
  next
    case False
    with s assms(2) fixed_handle_on_disk[OF False assms(3)[OF e False]] show ?thesis
      by (cases "p = filename song") (simp_all add: on_disk_def)
  qed
qed

lemma fix_loop_on_disk:
  assumes "fix_loop songs n w = (Inr (songs', n'), w')"
    and "\<And>h. Some h \<in> set songs \<Longrightarrow> contains h ALBUM_ARTIST \<Longrightarrow> on_disk (disk w) (filename h)"
    and "\<And>h. Some h \<in> set songs \<Longrightarrow> \<not> contains h ALBUM_ARTIST \<Longrightarrow> tags h ARTIST \<noteq> None"
  shows "(\<forall>s\<in>set songs. \<exists>h. s = Some h \<and> on_disk (disk w') (filename h))
       \<and> (\<forall>p. on_disk (disk w) p \<longrightarrow> on_disk (disk w') p)"
  using assms
proof (induction songs arbitrary: n w songs')
  case Nil
  then show ?case by simp
next
  case (Cons entry songs)
  from Cons.prems(1) obtain entry' n1 w1 rest' where
    a: "fix_song entry n w = (Inr (entry', n1), w1)" and
    b: "fix_loop songs n1 w1 = (Inr (rest', n'), w')"
    by (auto split: prod.splits sum.splits)
  have art: "\<And>song. entry = Some song \<Longrightarrow> \<not> contains song ALBUM_ARTIST \<Longrightarrow>
               tags song ARTIST \<noteq> None"
    using Cons.prems(3) by simp
  have step: "\<And>p. on_disk (disk w) p \<Longrightarrow> on_disk (disk w1) p"
    using fix_song_mono[OF a _ art] by blast
  have pre: "\<And>h. Some h \<in> set songs \<Longrightarrow> contains h ALBUM_ARTIST \<Longrightarrow>
               on_disk (disk w1) (filename h)"
    using Cons.prems(2) step by simp
  have pre2: "\<And>h. Some h \<in> set songs \<Longrightarrow> \<not> contains h ALBUM_ARTIST \<Longrightarrow>
               tags h ARTIST \<noteq> None"
    using Cons.prems(3) by simp
  from Cons.IH[OF b pre pre2] have
    rest: "\<forall>s\<in>set songs. \<exists>h. s = Some h \<and> on_disk (disk w') (filename h)" and
    mono: "\<forall>p. on_disk (disk w1) p \<longrightarrow> on_disk (disk w') p"
    by simp_all
  from fix_song_disk[OF a] obtain song where
    e: "entry = Some song" and
    s: "if contains song ALBUM_ARTIST then w1 = w \<and> n1 = n
        else disk w1 (filename song) = Inr (tags (fixed_handle song))
           \<and> (\<forall>p. p \<noteq> filename song \<longrightarrow> disk w1 p = disk w p)"
    by blast
  have "on_disk (disk w1) (filename song)"
  proof (cases "contains song ALBUM_ARTIST")
    case True
    with s Cons.prems(2)[of song] e show ?thesis by simp
  next
    case False
    with s fixed_handle_on_disk[OF False art[OF e False]] show ?thesis
      by (simp add: on_disk_def)
  qed
  with mono have "on_disk (disk w') (filename song)" by simp
  with e rest mono step show ?case by auto
qed

text \<open>A run of the loop over handles whose saves do not raise, in full.\<close>

lemma set_lacking: "h \<in> set (lacking songs) \<longleftrightarrow> Some h \<in> set songs \<and> \<not> contains h ALBUM_ARTIST"
  by (induction songs rule: lacking.induct) auto

lemma fix_loop_completes:
  assumes "None \<notin> set songs"
    and "\<And>h. h \<in> set (lacking songs) \<Longrightarrow> save_error w (filename h) = None"
  shows "\<exists>w'. fix_loop songs n w =
                (Inr (map (map_option fixed_handle) songs, n + length (lacking songs)), w')
           \<and> save_error w' = save_error w
           \<and> stdout w' =
               stdout w @ map (\<lambda>h. FixedMissingTag (str_item (getitem h TITLE))) (lacking songs)
           \<and> (\<forall>p. disk w' p =
                 (if filter (\<lambda>h. filename h = p) (lacking songs) = [] then disk w p
                  else Inr (tags (fixed_handle
                         (last (filter (\<lambda>h. filename h = p) (lacking songs)))))))"
  using assms
proof (induction songs arbitrary: n w)
  case Nil
  then show ?case by simp
next
  case (Cons entry songs)
  from Cons.prems(1) obtain h where e: "entry = Some h" by (cases entry) auto
  have none: "None \<notin> set songs" using Cons.prems(1) by simp
  show ?case
  proof (cases "contains h ALBUM_ARTIST")
    case True
    have sv: "\<And>k. k \<in> set (lacking songs) \<Longrightarrow> save_error w (filename k) = None"
      using Cons.prems(2) e True by simp
    from Cons.IH[OF none sv, of n] obtain w' where
      "fix_loop songs n w =
         (Inr (map (map_option fixed_handle) songs, n + length (lacking songs)), w')"
      "save_error w' = save_error w"
      "stdout w' =
         stdout w @ map (\<lambda>h. FixedMissingTag (str_item (getitem h TITLE))) (lacking songs)"
      "\<forall>p. disk w' p =
         (if filter (\<lambda>h. filename h = p) (lacking songs) = [] then disk w p
          else Inr (tags (fixed_handle (last (filter (\<lambda>h. filename h = p) (lacking songs))))))"
      by blast
    moreover have "fixed_handle h = h"
      using True by (simp add: fixed_handle_def)
    ultimately show ?thesis
      using e True by (simp add: fix_song_keep)
  next
    case False
    let ?w1 = "py_print (FixedMissingTag (str_item (getitem h TITLE)))
                 (w\<lparr>disk := (disk w)(filename h := Inr (tags (fixed_handle h)))\<rparr>)"
    have sh: "save_error w (filename h) = None"
      using Cons.prems(2)[of h] e False by simp
    have step: "fix_song entry n w = (Inr (Some (fixed_handle h), n + 1), ?w1)"
      using e fix_song_set[OF False sh] by simp
    have sv: "\<And>k. k \<in> set (lacking songs) \<Longrightarrow> save_error ?w1 (filename k) = None"
      using Cons.prems(2) e False by (simp add: py_print_def)
    from Cons.IH[OF none sv, of "n + 1"] obtain w' where
      r: "fix_loop songs (n + 1) ?w1 =
         (Inr (map (map_option fixed_handle) songs, n + 1 + length (lacking songs)), w')"
      and s: "save_error w' = save_error ?w1"
      and o: "stdout w' =
         stdout ?w1 @ map (\<lambda>h. FixedMissingTag (str_item (getitem h TITLE))) (lacking songs)"
      and d: "\<forall>p. disk w' p =
         (if filter (\<lambda>h. filename h = p) (lacking songs) = [] then disk ?w1 p
          else Inr (tags (fixed_handle (last (filter (\<lambda>h. filename h = p) (lacking songs))))))"
      by blast
    have "fix_loop (entry # songs) n w =
        (Inr (map (map_option fixed_handle) (entry # songs),
              n + length (lacking (entry # songs))), w')"
      using step r e False by simp
    moreover have "save_error w' = save_error w"
      using s by (simp add: py_print_def)
    moreover have "stdout w' = stdout w @
        map (\<lambda>h. FixedMissingTag (str_item (getitem h TITLE))) (lacking (entry # songs))"
      using o e False by (simp add: py_print_def)
    moreover have "\<forall>p. disk w' p =
        (if filter (\<lambda>h. filename h = p) (lacking (entry # songs)) = [] then disk w p
         else Inr (tags (fixed_handle
                (last (filter (\<lambda>h. filename h = p) (lacking (entry # songs)))))))"
      using d e False by (simp add: py_print_def)
    ultimately show ?thesis by blast
  qed
qed

lemma lacking_other_file:
  "(\<And>h. Some h \<in> set songs \<Longrightarrow> filename h \<noteq> p) \<Longrightarrow>
   filter (\<lambda>h. filename h = p) (lacking songs) = []"
  by (induction songs rule: lacking.induct) auto

lemma lacking_single:
  assumes "i < length songs" "songs ! i = Some song" "\<not> contains song ALBUM_ARTIST"
    and "\<And>j h. j < length songs \<Longrightarrow> j \<noteq> i \<Longrightarrow> songs ! j = Some h \<Longrightarrow>
           filename h \<noteq> filename song"
  shows "filter (\<lambda>h. filename h = filename song) (lacking songs) = [song]"
  using assms
proof (induction songs arbitrary: i)
  case Nil
  then show ?case by simp
next
  case (Cons x xs)
  show ?case
  proof (cases i)
    case 0
    have "\<And>h. Some h \<in> set xs \<Longrightarrow> filename h \<noteq> filename song"
    proof -
      fix h assume "Some h \<in> set xs"
      then obtain j where "j < length xs" "xs ! j = Some h" by (auto simp: in_set_conv_nth)
      with Cons.prems(4)[of "Suc j" h] 0 show "filename h \<noteq> filename song" by simp
    qed
    from lacking_other_file[OF this] Cons.prems(2,3) 0 show ?thesis by simp
  next
    case (Suc k)
    have ih: "filter (\<lambda>h. filename h = filename song) (lacking xs) = [song]"
    proof (rule Cons.IH[of k])
      show "k < length xs" using Cons.prems(1) Suc by simp
      show "xs ! k = Some song" using Cons.prems(2) Suc by simp
      show "\<not> contains song ALBUM_ARTIST" by (rule Cons.prems(3))
      fix j h assume "j < length xs" "j \<noteq> k" "xs ! j = Some h"
      with Cons.prems(4)[of "Suc j" h] Suc show "filename h \<noteq> filename song" by simp
    qed
    have "\<And>h. x = Some h \<Longrightarrow> filename h \<noteq> filename song"
      using Cons.prems(4)[of 0] Suc by simp
    with ih show ?thesis by (cases x) auto
  qed
qed

lemma fix_loop_all_present:
  assumes "\<And>s. s \<in> set songs \<Longrightarrow> \<exists>h. s = Some h \<and> contains h ALBUM_ARTIST"
  shows "fix_loop songs n w = (Inr (songs, n), w)"
  using assms
proof (induction songs)
  case Nil
  then show ?case by simp
next
  case (Cons entry songs)
  from Cons.prems[of entry] obtain h where "entry = Some h" "contains h ALBUM_ARTIST" by auto
  then have "fix_song entry n w = (Inr (entry, n), w)" by (simp add: fix_song_def)
  moreover have "fix_loop songs n w = (Inr (songs, n), w)"
    using Cons.IH Cons.prems by simp
  ultimately show ?case by simp
qed

subsection \<open>The Discoverer\<close>

lemma select_files_Some: "select_files (Some f) ps = Inr (filter f ps)"
  by (induction ps) (simp_all add: call_filter_def)

lemma extend_all_filter:
  assumes "\<And>d. d \<in> set ds \<Longrightarrow>
             rf d = (case ra d of Inl e \<Rightarrow> Inl e | Inr found \<Rightarrow> Inr (filter f found))"
  shows "extend_all rf ds (filter f acc) =
           (case extend_all ra ds acc of Inl e \<Rightarrow> Inl e | Inr found \<Rightarrow> Inr (filter f found))"
  using assms
proof (induction ds arbitrary: acc)
  case Nil
  then show ?case by simp
next
  case (Cons d ds)
  show ?case
  proof (cases "ra d")
    case (Inl e)
    with Cons.prems[of d] show ?thesis by simp
  next
    case (Inr found)
    with Cons.prems[of d] have "rf d = Inr (filter f found)" by simp
    moreover have "extend_all rf ds (filter f (acc @ found)) =
        (case extend_all ra ds (acc @ found) of
           Inl e \<Rightarrow> Inl e | Inr found \<Rightarrow> Inr (filter f found))"
      using Cons.IH[of "acc @ found"] Cons.prems by simp
    ultimately show ?thesis using Inr by simp
  qed
qed

text \<open>
  The traversal does not depend on the filter: with any filter it lists what it lists
  with the filter that accepts everything, and keeps the paths the filter accepts.
\<close>

lemma get_all_files_filter:
  "get_all_files fs cwd dir_path (Some f) =
     (case get_all_files fs cwd dir_path (Some (\<lambda>p. True)) of
        Inl e \<Rightarrow> Inl e
      | Inr found \<Rightarrow> Inr (filter f found))"
proof (induction fs cwd dir_path "Some f" rule: get_all_files.induct)
  case (1 fs cwd dir_path)
  show ?case
  proof (cases "listdir fs cwd dir_path")
    case (Inl e)
    then show ?thesis by (simp add: get_all_files.simps)
  next
    case (Inr names)
    let ?ps = "map (\<lambda>file. joinpath dir_path (path_of_name file)) names"
    let ?all = "\<lambda>d. get_all_files fs cwd (joinpath dir_path d) (Some (\<lambda>p. True))"
    have ih: "\<And>d. d \<in> set (filter (is_dir fs cwd) ?ps) \<Longrightarrow>
        get_all_files fs cwd (joinpath dir_path d) (Some f) =
          (case ?all d of Inl e \<Rightarrow> Inl e | Inr found \<Rightarrow> Inr (filter f found))"
      using 1[OF Inr select_files_Some] by simp
    have "get_all_files fs cwd dir_path (Some f) =
            extend_all (\<lambda>d. get_all_files fs cwd (joinpath dir_path d) (Some f))
              (filter (is_dir fs cwd) ?ps) (filter f ?ps)"
      using Inr by (subst get_all_files.simps) (simp add: select_files_Some)
    also have "\<dots> =
        (case extend_all ?all (filter (is_dir fs cwd) ?ps) ?ps of
           Inl e \<Rightarrow> Inl e | Inr found \<Rightarrow> Inr (filter f found))"
      by (rule extend_all_filter) (rule ih)
    also have "extend_all ?all (filter (is_dir fs cwd) ?ps) ?ps =
        get_all_files fs cwd dir_path (Some (\<lambda>p. True))"
      using Inr by (subst (2) get_all_files.simps) (simp add: select_files_Some)
    finally show ?thesis .
  qed
qed

lemma rfind_dot_mp3: "rfind (stem @ ''.mp3'') (CHR ''.'') = int (length stem)"
  by (simp add: rfind_def)

lemma suffix_mp3_iff:
  "suffix p = ''.mp3'' \<longleftrightarrow> (\<exists>stem. stem \<noteq> [] \<and> name p = stem @ ''.mp3'')"
proof
  assume a: "suffix p = ''.mp3''"
  let ?i = "nat (rfind (name p) (CHR ''.''))"
  from a have "0 < rfind (name p) (CHR ''.'')" and d: "drop ?i (name p) = ''.mp3''"
    by (auto simp: suffix_def Let_def split: if_splits)
  then have "take ?i (name p) \<noteq> []"
    using d by (cases "name p") auto
  moreover have "name p = take ?i (name p) @ ''.mp3''"
    using d append_take_drop_id[of ?i "name p"] by simp
  ultimately show "\<exists>stem. stem \<noteq> [] \<and> name p = stem @ ''.mp3''" by blast
next
  assume "\<exists>stem. stem \<noteq> [] \<and> name p = stem @ ''.mp3''"
  then obtain stem where s: "stem \<noteq> []" "name p = stem @ ''.mp3''" by blast
  then show "suffix p = ''.mp3''"
    by (simp add: suffix_def Let_def rfind_dot_mp3)
qed

subsection \<open>The Discoverer from an absolute root\<close>

text \<open>
  From an absolute root, in a tree where no directory lists a name twice,
  \<open>get_all_files\<close> returns every entry below the root that the filter accepts; where
  the filter accepts no directory, these are the regular files it accepts.
\<close>

lemma extend_all_Inr:
  assumes "\<And>d. d \<in> set ds \<Longrightarrow> rec d = Inr (g d)"
  shows "extend_all rec ds acc = Inr (acc @ concat (map g ds))"
  using assms by (induction ds arbitrary: acc) simp_all

lemma concat_map_filter_empty:
  "(\<And>x. x \<in> set xs \<Longrightarrow> \<not> P x \<Longrightarrow> g x = []) \<Longrightarrow>
   concat (map g (filter P xs)) = concat (map g xs)"
  by (induction xs) auto

lemma resolve_child:
  assumes "is_absolute p" "resolve fs cwd p = Inr (Dir entries)"
    "distinct (map fst entries)" "(n, c) \<in> set entries"
  shows "resolve fs cwd (joinpath p (path_of_name n)) = Inr c"
proof -
  have "map_of entries n = Some c" using assms(3,4) by simp
  moreover have "resolve fs cwd (joinpath p (path_of_name n)) = walk fs (components p @ [n])"
    using assms(1) by (simp add: resolve_def joinpath_def path_of_name_def)
  moreover have "walk fs (components p) = Inr (Dir entries)"
    using assms(1,2) by (simp add: resolve_def)
  ultimately show ?thesis by (simp add: walk_append)
qed

lemma get_all_files_absolute_all:
  "is_absolute p \<Longrightarrow> resolve fs cwd p = Inr node \<Longrightarrow> distinct_names node \<Longrightarrow>
   node \<noteq> File \<Longrightarrow>
   get_all_files fs cwd p (Some (\<lambda>q. True)) = Inr (entries_below p node)"
proof (induction p node rule: entries_below.induct)
  case (1 p)
  then show ?case by simp
next
  case (2 p entries)
  let ?child = "\<lambda>n. joinpath p (path_of_name n)"
  let ?ps = "map ?child (map fst entries)"
  let ?g = "\<lambda>d. case resolve fs cwd d of Inr c \<Rightarrow> entries_below d c | Inl e \<Rightarrow> []"
  have dist: "distinct (map fst entries)" using 2(4) by simp
  have abs: "\<And>n. is_absolute (?child n)" "\<And>n. joinpath p (?child n) = ?child n"
    using 2(2) by (simp_all add: joinpath_def path_of_name_def)
  have child: "\<And>n c. (n, c) \<in> set entries \<Longrightarrow> resolve fs cwd (?child n) = Inr c"
    using resolve_child[OF 2(2) 2(3) dist] by simp
  have l: "listdir fs cwd p = Inr (map fst entries)"
    using 2(3) by (simp add: listdir_def)
  have rec: "\<And>d. d \<in> set (filter (is_dir fs cwd) ?ps) \<Longrightarrow>
      get_all_files fs cwd (joinpath p d) (Some (\<lambda>q. True)) = Inr (?g d)"
  proof -
    fix d assume "d \<in> set (filter (is_dir fs cwd) ?ps)"
    then obtain n c where nc: "(n, c) \<in> set entries" and d: "d = ?child n"
      and dir: "is_dir fs cwd d"
      by auto
    from child[OF nc] dir d have notfile: "c \<noteq> File"
      by (auto simp: is_dir_def)
    have "distinct_names c" using 2(4) nc by (auto simp: list_all_iff)
    from 2(1)[OF nc refl abs(1) child[OF nc] this notfile] child[OF nc] d abs(2)
    show "get_all_files fs cwd (joinpath p d) (Some (\<lambda>q. True)) = Inr (?g d)"
      by simp
  qed
  have nondir: "\<And>d. d \<in> set ?ps \<Longrightarrow> \<not> is_dir fs cwd d \<Longrightarrow> ?g d = []"
  proof -
    fix d assume "d \<in> set ?ps" and nd: "\<not> is_dir fs cwd d"
    then obtain n c where nc: "(n, c) \<in> set entries" and d: "d = ?child n" by auto
    from child[OF nc] nd d have "c = File"
      by (cases c) (auto simp: is_dir_def)
    with child[OF nc] d show "?g d = []" by simp
  qed
  have c1: "concat (map ?g (filter (is_dir fs cwd) ?ps)) = concat (map ?g ?ps)"
    by (rule concat_map_filter_empty) (rule nondir)
  have run: "get_all_files fs cwd p (Some (\<lambda>q. True)) =
      extend_all (\<lambda>d. get_all_files fs cwd (joinpath p d) (Some (\<lambda>q. True)))
        (filter (is_dir fs cwd) ?ps) ?ps"
    using l by (subst get_all_files.simps) (simp add: select_files_Some)
  have ext: "extend_all (\<lambda>d. get_all_files fs cwd (joinpath p d) (Some (\<lambda>q. True)))
        (filter (is_dir fs cwd) ?ps) ?ps
      = Inr (?ps @ concat (map ?g (filter (is_dir fs cwd) ?ps)))"
    by (rule extend_all_Inr) (rule rec)
  have c2: "map ?g ?ps = map (\<lambda>(n, c). entries_below (?child n) c) entries"
    using child by (auto simp: map_eq_conv)
  show ?case
    unfolding run ext c1 c2 by (simp add: comp_def case_prod_unfold)
qed

lemma filter_map_skip:
  "(\<And>x. x \<in> set xs \<Longrightarrow> \<not> Q x \<Longrightarrow> \<not> f (h x)) \<Longrightarrow>
   filter f (map h xs) = filter f (map h (filter Q xs))"
  by (induction xs) auto

lemma filter_entries_below:
  "(\<And>d. d \<in> set (dirs_below p node) \<Longrightarrow> \<not> f d) \<Longrightarrow>
   filter f (entries_below p node) = filter f (files_below p node)"
proof (induction p node rule: entries_below.induct)
  case (1 p)
  then show ?case by simp
next
  case (2 p entries)
  let ?child = "\<lambda>n. joinpath p (path_of_name n)"
  have level: "filter f (map (\<lambda>(n, c). ?child n) entries) =
      filter f (map (\<lambda>(n, c). ?child n) (filter (\<lambda>(n, c). c = File) entries))"
  proof (rule filter_map_skip)
    fix x assume "x \<in> set entries" and "\<not> (case x of (n, c) \<Rightarrow> c = File)"
    then have "(case x of (n, c) \<Rightarrow> ?child n) \<in> set (dirs_below p (Dir entries))"
      by (auto split: prod.splits)
    then show "\<not> f (case x of (n, c) \<Rightarrow> ?child n)" by (rule 2(2))
  qed
  have deep: "\<And>n c. (n, c) \<in> set entries \<Longrightarrow>
      filter f (entries_below (?child n) c) = filter f (files_below (?child n) c)"
  proof -
    fix n c assume nc: "(n, c) \<in> set entries"
    show "filter f (entries_below (?child n) c) = filter f (files_below (?child n) c)"
    proof (rule 2(1)[OF nc refl])
      fix d assume "d \<in> set (dirs_below (?child n) c)"
      with nc have "d \<in> set (dirs_below p (Dir entries))" by auto
      then show "\<not> f d" by (rule 2(2))
    qed
  qed
  have "concat (map (\<lambda>(n, c). filter f (entries_below (?child n) c)) entries) =
        concat (map (\<lambda>(n, c). filter f (files_below (?child n) c)) entries)"
    using deep by (auto intro!: arg_cong[where f = concat] simp: map_eq_conv)
  with level show ?case
    by (simp add: filter_concat comp_def case_prod_unfold)
qed

lemma get_all_files_absolute:
  assumes "is_absolute p" "resolve fs cwd p = Inr (Dir entries)" "distinct_names (Dir entries)"
    and "\<And>d. d \<in> set (dirs_below p (Dir entries)) \<Longrightarrow> \<not> f d"
  shows "get_all_files fs cwd p (Some f) = Inr (filter f (files_below p (Dir entries)))"
proof -
  have "get_all_files fs cwd p (Some (\<lambda>q. True)) = Inr (entries_below p (Dir entries))"
    using assms(1-3) by (intro get_all_files_absolute_all) simp_all
  then have "get_all_files fs cwd p (Some f) = Inr (filter f (entries_below p (Dir entries)))"
    using get_all_files_filter[of fs cwd p f] by simp
  with filter_entries_below[of p "Dir entries" f] assms(4) show ?thesis by simp
qed

lemma get_all_files_absolute_example:
  "get_all_files nested_fs [] music_root (Some mp3_filter) =
     Inr (filter mp3_filter (files_below music_root (Dir [(''album'', Dir [(''a.mp3'', File)])])))
   \<and> files_below music_root (Dir [(''album'', Dir [(''a.mp3'', File)])]) =
     [Path True [''music'', ''album'', ''a.mp3'']]"
proof -
  have "get_all_files nested_fs [] music_root (Some mp3_filter) =
     Inr (filter mp3_filter (files_below music_root (Dir [(''album'', Dir [(''a.mp3'', File)])])))"
    by (rule get_all_files_absolute) (auto simp: path_defs resolve_def example_defs)
  then show ?thesis
    by (simp add: path_defs example_defs)
qed

section \<open>The claims\<close>

text \<open>
  C1 (amended: the save must not raise). A handle that reaches the set branch of the
  Fixer (no album-artist field, an artist field with value \<open>a\<close>), for a file whose save
  does not raise, ends with an album-artist field of value \<open>a\<close>, and the file it was
  loaded from holds the handle's tags. This is so
  \<^item> for the loop body, from every count and world: the count grows by one and the title
    is reported;
  \<^item> for \<open>fix_album_artist_tag\<close> on the list of this one handle, which reports 1 song
    fixed;
  \<^item> for \<open>fix_album_artist_tag\<close> on every list of handles whose saves do not raise:
    the run returns, reports each handle that lacked the field and their number, and
    leaves the file with the handle's tags where no other handle of the list is for the
    same file;
  \<^item> for the handle's place in the result of every run that returns.
\<close>

theorem set_branch_copies_artist:
  assumes "\<not> contains song ALBUM_ARTIST" and "tags song ARTIST = Some a"
    and "save_error w (filename song) = None"
  shows "\<exists>song'.
           contains song' ALBUM_ARTIST
         \<and> tags song' ALBUM_ARTIST = tags song ARTIST
         \<and> getitem song' ALBUM_ARTIST = Some a
         \<and> filename song' = filename song
         \<and> (\<exists>w'. fix_song (Some song) fixed_songs w = (Inr (Some song', fixed_songs + 1), w')
                \<and> disk w' (filename song) = Inr (tags song')
                \<and> stdout w' = stdout w @ [FixedMissingTag (str_item (getitem song TITLE))])
         \<and> (\<exists>w'. fix_album_artist_tag [Some song] w = (Inr [Some song'], w')
                \<and> disk w' (filename song) = Inr (tags song')
                \<and> stdout w' =
                    stdout w @ [FixedMissingTag (str_item (getitem song TITLE)), FinishedFixing 1])
         \<and> (\<forall>songs i v.
               i < length songs \<and> songs ! i = Some song \<and> None \<notin> set songs
               \<and> (\<forall>h\<in>set (lacking songs). save_error v (filename h) = None)
               \<longrightarrow> (\<exists>songs' v'.
                      fix_album_artist_tag songs v = (Inr songs', v')
                    \<and> songs' ! i = Some song'
                    \<and> stdout v' =
                        stdout v
                        @ map (\<lambda>h. FixedMissingTag (str_item (getitem h TITLE))) (lacking songs)
                        @ [FinishedFixing (length (lacking songs))]
                    \<and> ((\<forall>j<length songs. j \<noteq> i \<longrightarrow>
                           (\<forall>h. songs ! j = Some h \<longrightarrow> filename h \<noteq> filename song))
                         \<longrightarrow> disk v' (filename song) = Inr (tags song'))))
         \<and> (\<forall>songs i v songs' v'.
               fix_album_artist_tag songs v = (Inr songs', v') \<and> i < length songs
               \<and> songs ! i = Some song \<longrightarrow> songs' ! i = Some song')"
proof -
  let ?s = "fixed_handle song"
  have fh: "?s = setitem song ALBUM_ARTIST (getitem song ARTIST)"
    using assms(1) by (simp add: fixed_handle_def)
  have p1: "contains ?s ALBUM_ARTIST" "tags ?s ALBUM_ARTIST = tags song ARTIST"
    "getitem ?s ALBUM_ARTIST = Some a" "filename ?s = filename song"
    using assms(2) by (simp_all add: fh contains_def setitem_def getitem_def)
  have body: "\<exists>w'. fix_song (Some song) fixed_songs w = (Inr (Some ?s, fixed_songs + 1), w')
                \<and> disk w' (filename song) = Inr (tags ?s)
                \<and> stdout w' = stdout w @ [FixedMissingTag (str_item (getitem song TITLE))]"
    using fix_song_set[OF assms(1,3), of fixed_songs] by (simp add: py_print_def)
  have general: "\<exists>songs' v'.
          fix_album_artist_tag songs v = (Inr songs', v')
        \<and> songs' ! i = Some ?s
        \<and> stdout v' =
            stdout v
            @ map (\<lambda>h. FixedMissingTag (str_item (getitem h TITLE))) (lacking songs)
            @ [FinishedFixing (length (lacking songs))]
        \<and> ((\<forall>j<length songs. j \<noteq> i \<longrightarrow>
               (\<forall>h. songs ! j = Some h \<longrightarrow> filename h \<noteq> filename song))
             \<longrightarrow> disk v' (filename song) = Inr (tags ?s))"
    if i: "i < length songs" and at: "songs ! i = Some song" and none: "None \<notin> set songs"
      and sv: "\<forall>h\<in>set (lacking songs). save_error v (filename h) = None"
    for songs i v
  proof -
    from fix_loop_completes[OF none, of v 0] sv obtain v1 where
      run: "fix_loop songs 0 v =
              (Inr (map (map_option fixed_handle) songs, 0 + length (lacking songs)), v1)"
      and out: "stdout v1 =
              stdout v @ map (\<lambda>h. FixedMissingTag (str_item (getitem h TITLE))) (lacking songs)"
      and dsk: "\<forall>p. disk v1 p =
              (if filter (\<lambda>h. filename h = p) (lacking songs) = [] then disk v p
               else Inr (tags (fixed_handle
                      (last (filter (\<lambda>h. filename h = p) (lacking songs))))))"
      by blast
    let ?v' = "py_print (FinishedFixing (length (lacking songs))) v1"
    have r: "fix_album_artist_tag songs v = (Inr (map (map_option fixed_handle) songs), ?v')"
      using run by (simp add: fix_album_artist_tag_def)
    have h: "map (map_option fixed_handle) songs ! i = Some ?s"
      using i at by simp
    have o: "stdout ?v' =
            stdout v
            @ map (\<lambda>h. FixedMissingTag (str_item (getitem h TITLE))) (lacking songs)
            @ [FinishedFixing (length (lacking songs))]"
      using out by (simp add: py_print_def)
    have d: "disk ?v' (filename song) = Inr (tags ?s)"
      if alone: "\<forall>j<length songs. j \<noteq> i \<longrightarrow>
               (\<forall>h. songs ! j = Some h \<longrightarrow> filename h \<noteq> filename song)"
    proof -
      have "filter (\<lambda>h. filename h = filename song) (lacking songs) = [song]"
        using alone by (intro lacking_single[OF i at assms(1)]) blast
      with dsk show ?thesis by (simp add: py_print_def)
    qed
    from r h o d show ?thesis by blast
  qed
  have single: "\<exists>w'. fix_album_artist_tag [Some song] w = (Inr [Some ?s], w')
                \<and> disk w' (filename song) = Inr (tags ?s)
                \<and> stdout w' =
                    stdout w @ [FixedMissingTag (str_item (getitem song TITLE)), FinishedFixing 1]"
    using fix_song_set[OF assms(1,3), of 0]
    by (simp add: fix_album_artist_tag_def py_print_def)
  have completed: "\<forall>songs i v songs' v'.
          fix_album_artist_tag songs v = (Inr songs', v') \<and> i < length songs
          \<and> songs ! i = Some song \<longrightarrow> songs' ! i = Some ?s"
    using fix_album_artist_tag_handles by fastforce
  from p1 body single general completed show ?thesis by blast
qed

text \<open>
  An instance: \<^verbatim>\<open>a.mp3\<close> of the scenario, alone in the loop body and first in the list
  of both handles.
\<close>

theorem set_branch_copies_artist_witness:
  "\<not> contains song_a ALBUM_ARTIST \<and> tags song_a ARTIST = Some ''Bob''
   \<and> save_error scenario_world (filename song_a) = None
   \<and> (\<exists>song'. getitem song' ALBUM_ARTIST = Some ''Bob''
         \<and> (\<exists>w'. fix_song (Some song_a) 0 scenario_world = (Inr (Some song', 1), w')
                \<and> disk w' a_mp3 = Inr (tags song'))
         \<and> (\<exists>songs' v'.
               fix_album_artist_tag [Some song_a, Some song_b] scenario_world = (Inr songs', v')
             \<and> songs' ! 0 = Some song'
             \<and> stdout v' = [FixedMissingTag ''Song A'', FinishedFixing 1]
             \<and> disk v' a_mp3 = Inr (tags song')))"
proof -
  have h1: "\<not> contains song_a ALBUM_ARTIST"
    by (simp add: tag_defs example_defs)
  have h2: "tags song_a ARTIST = Some ''Bob''"
    by (simp add: tag_defs example_defs)
  have h3: "save_error scenario_world (filename song_a) = None"
    by (simp add: example_defs)
  have f: "filename song_a = a_mp3"
    by (simp add: example_defs)
  have b: "contains song_b ALBUM_ARTIST" "filename song_b \<noteq> filename song_a"
    by (simp_all add: tag_defs example_defs)
  have l: "lacking [Some song_a, Some song_b] = [song_a]"
    using h1 b by simp
  have t: "str_item (getitem song_a TITLE) = ''Song A''" "stdout scenario_world = []"
    by (simp_all add: tag_defs example_defs)
  from set_branch_copies_artist[OF h1 h2 h3, of 0] obtain song' where
    g: "getitem song' ALBUM_ARTIST = Some ''Bob''" and
    s: "\<exists>w'. fix_song (Some song_a) 0 scenario_world = (Inr (Some song', 0 + 1), w')
           \<and> disk w' (filename song_a) = Inr (tags song')
           \<and> stdout w' = stdout scenario_world @ [FixedMissingTag (str_item (getitem song_a TITLE))]" and
    a: "\<forall>songs i v.
          i < length songs \<and> songs ! i = Some song_a \<and> None \<notin> set songs
          \<and> (\<forall>h\<in>set (lacking songs). save_error v (filename h) = None)
          \<longrightarrow> (\<exists>songs' v'.
                 fix_album_artist_tag songs v = (Inr songs', v')
               \<and> songs' ! i = Some song'
               \<and> stdout v' =
                   stdout v
                   @ map (\<lambda>h. FixedMissingTag (str_item (getitem h TITLE))) (lacking songs)
                   @ [FinishedFixing (length (lacking songs))]
               \<and> ((\<forall>j<length songs. j \<noteq> i \<longrightarrow>
                      (\<forall>h. songs ! j = Some h \<longrightarrow> filename h \<noteq> filename song_a))
                    \<longrightarrow> disk v' (filename song_a) = Inr (tags song')))"
    by blast
  have alone: "\<forall>j<length [Some song_a, Some song_b]. j \<noteq> 0 \<longrightarrow>
      (\<forall>h. [Some song_a, Some song_b] ! j = Some h \<longrightarrow> filename h \<noteq> filename song_a)"
    using b by (auto simp: nth_Cons split: nat.splits)
  from a[rule_format, of 0 "[Some song_a, Some song_b]" scenario_world] l h3 obtain songs' v' where
    r: "fix_album_artist_tag [Some song_a, Some song_b] scenario_world = (Inr songs', v')"
      "songs' ! 0 = Some song'"
      "stdout v' = stdout scenario_world
          @ map (\<lambda>h. FixedMissingTag (str_item (getitem h TITLE))) (lacking [Some song_a, Some song_b])
          @ [FinishedFixing (length (lacking [Some song_a, Some song_b]))]"
      "(\<forall>j<length [Some song_a, Some song_b]. j \<noteq> 0 \<longrightarrow>
          (\<forall>h. [Some song_a, Some song_b] ! j = Some h \<longrightarrow> filename h \<noteq> filename song_a))
        \<longrightarrow> disk v' (filename song_a) = Inr (tags song')"
    by auto
  from r(3) l t have o: "stdout v' = [FixedMissingTag ''Song A'', FinishedFixing 1]"
    by simp
  from r(4) alone f have d: "disk v' a_mp3 = Inr (tags song')"
    by simp
  from s f have s': "\<exists>w'. fix_song (Some song_a) 0 scenario_world = (Inr (Some song', 1), w')
           \<and> disk w' a_mp3 = Inr (tags song')"
    by auto
  from h1 h2 h3 g s' r(1,2) o d show ?thesis by blast
qed

text \<open>
  C1 as stated fails where the save raises: for \<^verbatim>\<open>a.mp3\<close> in a directory that cannot
  be written, the handle reaches the set branch, \<^verbatim>\<open>song.save()\<close> raises
  \<^verbatim>\<open>PermissionError\<close>, which nothing catches, and the file keeps no album artist.
\<close>

theorem save_failure_counterexample:
  "\<not> contains song_a ALBUM_ARTIST \<and> contains song_a ARTIST
   \<and> fix_song (Some song_a) 0 read_only_world = (Inl (Raised PermissionError []), read_only_world)
   \<and> fix_album_artist_tag [Some song_a] read_only_world =
       (Inl (Raised PermissionError []), read_only_world)
   \<and> disk read_only_world a_mp3 = Inr (tags song_a)
   \<and> tags song_a ALBUM_ARTIST = None"
  by (simp add: tag_defs run_defs example_defs Let_def)

text \<open>
  C2 (the code departs from the claim). In the directory of the scenario with
  \<^verbatim>\<open>a.mp3\<close> not an audio file, the Loader prints its message and keeps \<^verbatim>\<open>None\<close> in
  the list it returns; \<open>main\<close> counts it among the songs found, and the Fixer raises
  \<^verbatim>\<open>TypeError\<close> on it before it has looked at \<^verbatim>\<open>b.mp3\<close>, which stays without an
  album artist.
\<close>

theorem failed_load_reaches_fixer:
  "fst (load_all_songs [a_mp3, b_mp3] broken_world) =
     Inr [None, Some \<lparr>filename = b_mp3, tags = [''artist'' \<mapsto> ''Bob'']\<rparr>]
   \<and> fst (main scenario_fs [] music_root broken_world) = Inl (Raised TypeError [])
   \<and> stdout (snd (main scenario_fs [] music_root broken_world)) =
       [NotAMusicFile a_mp3, FinishedScanning 2]
   \<and> disk (snd (main scenario_fs [] music_root broken_world)) b_mp3 =
       Inr [''artist'' \<mapsto> ''Bob'']"
  by (simp add: main_def scenario_files) (simp add: tag_defs run_defs example_defs Let_def)

text \<open>
  C3 (the code departs from the claim). For the relative root \<^verbatim>\<open>music\<close> with the
  file \<^verbatim>\<open>music/album/a.mp3\<close> below it, \<open>get_all_files\<close> joins the root with the
  sub-directory path it has already joined, lists \<^verbatim>\<open>music/music/album\<close> and raises
  \<^verbatim>\<open>FileNotFoundError\<close>; from the absolute root of the same tree it returns the file.
  (From an absolute root the traversal is right where the filter accepts no directory:
  \<open>get_all_files_absolute\<close>.)
\<close>

theorem relative_root_breaks_traversal:
  "get_all_files nested_fs [] (Path False [''music'']) (Some mp3_filter) =
     Inl (Raised FileNotFoundError [])
   \<and> joinpath (Path False [''music'']) (joinpath (Path False [''music'']) (path_of_name ''album''))
       = Path False [''music'', ''music'', ''album'']
   \<and> get_all_files nested_fs [] (Path True [''music'']) (Some mp3_filter) =
     Inr [Path True [''music'', ''album'', ''a.mp3'']]"
  by (simp add: get_all_files.simps path_defs fs_defs example_defs cong: extend_all_weak_cong)

text \<open>
  C4 (the code departs from the claim). The filter is called on every listed entry,
  directories too: a directory named \<^verbatim>\<open>live.mp3\<close> passes the filter of \<open>main\<close> and
  stands in the returned list, before the file found inside it.
\<close>

theorem directory_passes_filter:
  "get_all_files live_fs [] music_root (Some mp3_filter) =
     Inr [Path True [''music'', ''live.mp3''], Path True [''music'', ''live.mp3'', ''t.mp3'']]
   \<and> is_dir live_fs [] (Path True [''music'', ''live.mp3''])"
  by (simp add: get_all_files.simps path_defs fs_defs example_defs cong: extend_all_weak_cong)

text \<open>
  C5. For a handle whose album-artist field is present, the loop body of the Fixer
  returns the handle, the count and the world as they were: nothing is set, saved or
  printed. In every completed run of \<open>fix_album_artist_tag\<close> over a list with this
  handle, the handle ends as it began.
\<close>

theorem present_album_artist_untouched:
  assumes "contains song ALBUM_ARTIST"
  shows "fix_song (Some song) fixed_songs w = (Inr (Some song, fixed_songs), w)
       \<and> (\<forall>songs i v songs' v'.
             fix_album_artist_tag songs v = (Inr songs', v') \<and> i < length songs
             \<and> songs ! i = Some song \<longrightarrow> songs' ! i = Some song)"
proof -
  have fh: "fixed_handle song = song"
    using assms by (simp add: fixed_handle_def)
  have "\<forall>songs i v songs' v'.
          fix_album_artist_tag songs v = (Inr songs', v') \<and> i < length songs
          \<and> songs ! i = Some song \<longrightarrow> songs' ! i = Some song"
    using fix_album_artist_tag_handles fh by fastforce
  then show ?thesis using assms by (simp add: fix_song_def)
qed

theorem present_album_artist_untouched_witness:
  "contains song_b ALBUM_ARTIST
   \<and> fix_song (Some song_b) 0 scenario_world = (Inr (Some song_b, 0), scenario_world)"
proof -
  have h: "contains song_b ALBUM_ARTIST"
    by (simp add: tag_defs example_defs)
  from present_album_artist_untouched[OF h, of 0 scenario_world] h show ?thesis by simp
qed

text \<open>
  C6 (amended: every file that lacks an album artist has an artist). When a run of
  \<open>main\<close> over a directory has completed (returned without an exception), and every
  discovered audio file without an album-artist field had an artist field, a second run
  over the same directory from the world the first one left completes too, saves nothing
  and reports that it fixed 0 songs: it prints the number of songs found and
  \<^verbatim>\<open>Finished fixing all songs (0 songs fixed)\<close>, and every handle it loaded has an
  album-artist field.
\<close>

theorem second_run_fixes_nothing:
  assumes "main fs cwd dir_path w = (Inr songs1, w1)"
    and "get_all_files fs cwd dir_path (Some mp3_filter) = Inr files"
    and "\<forall>p\<in>set files. \<forall>t. disk w p = Inr t \<and> t ALBUM_ARTIST = None \<longrightarrow> t ARTIST \<noteq> None"
  shows "\<exists>songs2.
           main fs cwd dir_path w1 =
             (Inr songs2,
              py_print (FinishedFixing 0) (py_print (FinishedScanning (length songs2)) w1))
         \<and> length songs2 = length songs1
         \<and> (\<forall>s\<in>set songs2. \<exists>h. s = Some h \<and> contains h ALBUM_ARTIST)"
proof -
  note files = assms(2)
  let ?songs = "map (loaded (disk w)) files"
  let ?wl = "w\<lparr>stdout := stdout w @ load_messages (disk w) files\<rparr>"
  let ?wp = "py_print (FinishedScanning (length ?songs)) ?wl"
  from assms(1) files have fx: "fix_album_artist_tag ?songs ?wp = (Inr songs1, w1)"
    by (simp add: main_def load_all_songs_eq)
  then obtain n w1' where
    loop: "fix_loop ?songs 0 ?wp = (Inr (songs1, n), w1')" and
    w1: "w1 = py_print (FinishedFixing n) w1'"
    by (auto simp: fix_album_artist_tag_def split: prod.splits sum.splits)
  have pre: "\<And>h. Some h \<in> set ?songs \<Longrightarrow> contains h ALBUM_ARTIST \<Longrightarrow>
               on_disk (disk ?wp) (filename h)"
  proof -
    fix h assume "Some h \<in> set ?songs" and c: "contains h ALBUM_ARTIST"
    then obtain p where "loaded (disk w) p = Some h" by auto
    from loaded_filename[OF this] c show "on_disk (disk ?wp) (filename h)"
      by (simp add: on_disk_def py_print_def contains_def)
  qed
  have art: "\<And>h. Some h \<in> set ?songs \<Longrightarrow> \<not> contains h ALBUM_ARTIST \<Longrightarrow>
               tags h ARTIST \<noteq> None"
  proof -
    fix h assume "Some h \<in> set ?songs" and c: "\<not> contains h ALBUM_ARTIST"
    then obtain p where p: "p \<in> set files" and l: "loaded (disk w) p = Some h" by auto
    from loaded_filename[OF l] have "disk w p = Inr (tags h)" by simp
    with assms(3) p c show "tags h ARTIST \<noteq> None"
      by (auto simp: contains_def)
  qed
  from fix_loop_on_disk[OF loop pre art] have
    all: "\<forall>s\<in>set ?songs. \<exists>h. s = Some h \<and> on_disk (disk w1') (filename h)"
    by simp
  have d1: "disk w1 = disk w1'"
    using w1 by (simp add: py_print_def)
  have od: "\<And>p. p \<in> set files \<Longrightarrow> on_disk (disk w1) p"
  proof -
    fix p assume "p \<in> set files"
    with all obtain h where h: "loaded (disk w) p = Some h"
      and "on_disk (disk w1') (filename h)"
      by auto
    with loaded_filename[OF h] d1 show "on_disk (disk w1) p" by simp
  qed
  let ?songs2 = "map (loaded (disk w1)) files"
  have present: "\<And>s. s \<in> set ?songs2 \<Longrightarrow> \<exists>h. s = Some h \<and> contains h ALBUM_ARTIST"
    using od loaded_on_disk by auto
  have "load_all_songs files w1 = (Inr ?songs2, w1)"
    using load_messages_on_disk[of files "disk w1"] od by (simp add: load_all_songs_eq)
  moreover have "fix_loop ?songs2 0 v = (Inr (?songs2, 0), v)" for v
    by (rule fix_loop_all_present) (rule present)
  ultimately have "main fs cwd dir_path w1 =
      (Inr ?songs2,
       py_print (FinishedFixing 0) (py_print (FinishedScanning (length ?songs2)) w1))"
    using files by (simp add: main_def fix_album_artist_tag_def)
  moreover have "length ?songs2 = length songs1"
    using fix_loop_handles[OF loop] by simp
  ultimately show ?thesis using present by blast
qed

text \<open>
  An instance, the scenario of section 8 of the spec: the first run reports 2 songs
  found and 1 song fixed, and leaves \<^verbatim>\<open>a.mp3\<close> with album artist Bob.
\<close>

theorem second_run_fixes_nothing_witness:
  "fst (main scenario_fs [] music_root scenario_world) =
     Inr [Some (setitem song_a ALBUM_ARTIST (Some ''Bob'')), Some song_b]
   \<and> stdout (snd (main scenario_fs [] music_root scenario_world)) =
     [FinishedScanning 2, FixedMissingTag ''Song A'', FinishedFixing 1]
   \<and> get_all_files scenario_fs [] music_root (Some mp3_filter) = Inr [a_mp3, b_mp3]
   \<and> disk scenario_world a_mp3 = Inr [''artist'' \<mapsto> ''Bob'', ''title'' \<mapsto> ''Song A'']
   \<and> disk scenario_world b_mp3 = Inr [''artist'' \<mapsto> ''Bob'', ''album_artist'' \<mapsto> ''Bob'']
   \<and> (\<exists>songs2.
         main scenario_fs [] music_root (snd (main scenario_fs [] music_root scenario_world)) =
           (Inr songs2,
            py_print (FinishedFixing 0) (py_print (FinishedScanning (length songs2))
              (snd (main scenario_fs [] music_root scenario_world)))))"
proof -
  let ?r = "main scenario_fs [] music_root scenario_world"
  have r1: "fst ?r = Inr [Some (setitem song_a ALBUM_ARTIST (Some ''Bob'')), Some song_b]"
    by (simp add: main_def scenario_files) (simp add: tag_defs run_defs example_defs Let_def)
  have r2: "stdout (snd ?r) = [FinishedScanning 2, FixedMissingTag ''Song A'', FinishedFixing 1]"
    by (simp add: main_def scenario_files) (simp add: tag_defs run_defs example_defs Let_def)
  have da: "disk scenario_world a_mp3 = Inr [''artist'' \<mapsto> ''Bob'', ''title'' \<mapsto> ''Song A'']"
    and db: "disk scenario_world b_mp3 = Inr [''artist'' \<mapsto> ''Bob'', ''album_artist'' \<mapsto> ''Bob'']"
    by (simp_all add: example_defs)
  have art: "\<forall>p\<in>set [a_mp3, b_mp3]. \<forall>t.
      disk scenario_world p = Inr t \<and> t ALBUM_ARTIST = None \<longrightarrow> t ARTIST \<noteq> None"
    using da db by (auto simp: ARTIST_def)
  have "?r = (Inr [Some (setitem song_a ALBUM_ARTIST (Some ''Bob'')), Some song_b], snd ?r)"
    using r1 by (metis prod.collapse)
  from second_run_fixes_nothing[OF this scenario_files art] r1 r2 scenario_files da db
  show ?thesis by blast
qed

text \<open>
  C6 as stated fails for a file with no artist: the set branch copies the item of the
  absent artist, the file keeps no album artist, and the second run reports the same
  file fixed once more.
\<close>

theorem no_artist_counterexample:
  "tags song_n ARTIST = None \<and> tags song_n ALBUM_ARTIST = None
   \<and> disk no_artist_world n_mp3 = Inr (tags song_n)
   \<and> fst (main single_fs [] music_root no_artist_world) = Inr [Some song_n]
   \<and> stdout (snd (main single_fs [] music_root no_artist_world)) =
       [FinishedScanning 1, FixedMissingTag ''Song N'', FinishedFixing 1]
   \<and> fst (main single_fs [] music_root (snd (main single_fs [] music_root no_artist_world))) =
       Inr [Some song_n]
   \<and> stdout (snd (main single_fs [] music_root
               (snd (main single_fs [] music_root no_artist_world)))) =
       [FinishedScanning 1, FixedMissingTag ''Song N'', FinishedFixing 1,
        FinishedScanning 1, FixedMissingTag ''Song N'', FinishedFixing 1]"
proof -
  have f: "get_all_files single_fs [] music_root (Some mp3_filter) = Inr [n_mp3]"
    by (simp add: get_all_files.simps path_defs fs_defs example_defs cong: extend_all_weak_cong)
  show ?thesis
    by (simp add: main_def f)
      (simp add: tag_defs run_defs example_defs Let_def)
qed

text \<open>
  C7. Whatever exception the library's load raises for a path, \<open>load_song\<close> returns
  normally with \<^verbatim>\<open>None\<close>, having printed one message: the not-a-music-file message
  for \<^verbatim>\<open>UnboundLocalError\<close> and \<^verbatim>\<open>NotImplementedError\<close>, the permission message for
  \<^verbatim>\<open>PermissionError\<close>, and the message with the exception's text for anything else.
  The last handler, \<^verbatim>\<open>except Exception\<close>, takes every exception the others leave.
\<close>

theorem load_song_never_raises:
  assumes "load_file path w = Inl e"
  shows "load_song path w =
           (Inr None,
            py_print (if isinstance e UnboundLocalError \<or> isinstance e NotImplementedError
                      then NotAMusicFile path
                      else if isinstance e PermissionError then PermissionDenied path
                      else SomethingWentWrong e path) w)"
  using assms by (simp add: load_song_def isinstance_Exception)

theorem load_song_never_raises_witness:
  "load_file a_mp3 broken_world = Inl (Raised NotImplementedError [])
   \<and> load_song a_mp3 broken_world = (Inr None, py_print (NotAMusicFile a_mp3) broken_world)
   \<and> load_file music_root broken_world = Inl (Raised FileNotFoundError [])
   \<and> load_song music_root broken_world =
       (Inr None,
        py_print (SomethingWentWrong (Raised FileNotFoundError []) music_root) broken_world)"
proof -
  have h1: "load_file a_mp3 broken_world = Inl (Raised NotImplementedError [])"
    by (simp add: load_file_def example_defs)
  have h2: "load_file music_root broken_world = Inl (Raised FileNotFoundError [])"
    by (simp add: load_file_def example_defs)
  from load_song_never_raises[OF h1] load_song_never_raises[OF h2] h1 h2
  show ?thesis by (simp add: isinstance_def)
qed

text \<open>
  C8. Of the entries the traversal lists (what \<open>get_all_files\<close> returns with a filter
  that accepts everything), \<open>main\<close> hands to the Loader exactly those whose suffix is
  \<^verbatim>\<open>.mp3\<close>, in the same order: the entries whose name is a non-empty stem followed by
  the four characters \<^verbatim>\<open>.mp3\<close>, compared as they are.
\<close>

theorem only_mp3_reaches_loader:
  assumes "get_all_files fs cwd dir_path (Some (\<lambda>p. True)) = Inr discovered"
  shows "\<exists>files.
           get_all_files fs cwd dir_path (Some mp3_filter) = Inr files
         \<and> files = filter (\<lambda>p. suffix p = ''.mp3'') discovered
         \<and> (\<forall>p. p \<in> set files \<longleftrightarrow>
                  p \<in> set discovered \<and> (\<exists>stem. stem \<noteq> [] \<and> name p = stem @ ''.mp3''))
         \<and> main fs cwd dir_path w =
             (case load_all_songs files w of
                (Inl e, w1) \<Rightarrow> (Inl e, w1)
              | (Inr songs, w1) \<Rightarrow>
                  fix_album_artist_tag songs (py_print (FinishedScanning (length songs)) w1))"
proof -
  let ?files = "filter mp3_filter discovered"
  have f: "get_all_files fs cwd dir_path (Some mp3_filter) = Inr ?files"
    using assms get_all_files_filter[of fs cwd dir_path mp3_filter] by simp
  have e: "?files = filter (\<lambda>p. suffix p = ''.mp3'') discovered"
    by (rule filter_cong) (simp_all add: mp3_filter_def MP3_def)
  have m: "\<forall>p. p \<in> set ?files \<longleftrightarrow>
             p \<in> set discovered \<and> (\<exists>stem. stem \<noteq> [] \<and> name p = stem @ ''.mp3'')"
    using suffix_mp3_iff by (simp add: mp3_filter_def MP3_def)
  have "main fs cwd dir_path w =
          (case load_all_songs ?files w of
             (Inl e, w1) \<Rightarrow> (Inl e, w1)
           | (Inr songs, w1) \<Rightarrow>
               fix_album_artist_tag songs (py_print (FinishedScanning (length songs)) w1))"
    using f by (simp add: main_def)
  with f e m show ?thesis by blast
qed

theorem only_mp3_reaches_loader_witness:
  "get_all_files mixed_fs [] music_root (Some (\<lambda>p. True)) =
     Inr [Path True [''music'', ''a.mp3''], Path True [''music'', ''c.MP3''],
          Path True [''music'', ''.mp3''], Path True [''music'', ''notes.txt''],
          Path True [''music'', ''d.mp3.bak'']]
   \<and> get_all_files mixed_fs [] music_root (Some mp3_filter) = Inr [Path True [''music'', ''a.mp3'']]"
proof -
  have h: "get_all_files mixed_fs [] music_root (Some (\<lambda>p. True)) =
     Inr [Path True [''music'', ''a.mp3''], Path True [''music'', ''c.MP3''],
          Path True [''music'', ''.mp3''], Path True [''music'', ''notes.txt''],
          Path True [''music'', ''d.mp3.bak'']]"
    by (simp add: get_all_files.simps path_defs fs_defs example_defs cong: extend_all_weak_cong)
  from only_mp3_reaches_loader[OF h] obtain files where
    "get_all_files mixed_fs [] music_root (Some mp3_filter) = Inr files"
    "files = filter (\<lambda>p. suffix p = ''.mp3'')
       [Path True [''music'', ''a.mp3''], Path True [''music'', ''c.MP3''],
        Path True [''music'', ''.mp3''], Path True [''music'', ''notes.txt''],
        Path True [''music'', ''d.mp3.bak'']]"
    by blast
  then have "get_all_files mixed_fs [] music_root (Some mp3_filter) =
      Inr [Path True [''music'', ''a.mp3'']]"
    by (simp add: path_defs)
  with h show ?thesis by simp
qed

text \<open>
  C9. \<open>load_all_songs\<close> returns normally for every list of paths, with one entry per
  path in the order of the paths: the handle where the load succeeds, \<^verbatim>\<open>None\<close> where
  it raises. The number of songs found that \<open>main\<close> prints is the number of paths
  the traversal returned.
\<close>

theorem load_all_songs_keeps_length:
  "\<exists>songs w'.
     load_all_songs files w = (Inr songs, w')
   \<and> length songs = length files
   \<and> songs = map (\<lambda>p. case load_file p w of Inl e \<Rightarrow> None | Inr song \<Rightarrow> Some song) files
   \<and> (\<forall>fs cwd dir_path.
        get_all_files fs cwd dir_path (Some mp3_filter) = Inr files \<longrightarrow>
        main fs cwd dir_path w =
          fix_album_artist_tag songs (py_print (FinishedScanning (length files)) w'))"
  by (auto simp: load_all_songs_eq main_def loaded_def load_file_def split: sum.splits)

theorem load_all_songs_keeps_length_witness:
  "\<exists>songs w'.
     load_all_songs [a_mp3, b_mp3] broken_world = (Inr songs, w')
   \<and> length songs = 2
   \<and> songs = [None, Some \<lparr>filename = b_mp3, tags = [''artist'' \<mapsto> ''Bob'']\<rparr>]
   \<and> main scenario_fs [] music_root broken_world =
       fix_album_artist_tag songs (py_print (FinishedScanning 2) w')"
proof -
  from load_all_songs_keeps_length[of "[a_mp3, b_mp3]" broken_world] obtain songs w' where
    a: "load_all_songs [a_mp3, b_mp3] broken_world = (Inr songs, w')" and
    b: "length songs = length [a_mp3, b_mp3]" and
    c: "songs = map (\<lambda>p. case load_file p broken_world of Inl e \<Rightarrow> None | Inr song \<Rightarrow> Some song)
                  [a_mp3, b_mp3]" and
    d: "\<forall>fs cwd dir_path.
          get_all_files fs cwd dir_path (Some mp3_filter) = Inr [a_mp3, b_mp3] \<longrightarrow>
          main fs cwd dir_path broken_world =
            fix_album_artist_tag songs (py_print (FinishedScanning (length [a_mp3, b_mp3])) w')"
    by blast
  from c have c': "songs = [None, Some \<lparr>filename = b_mp3, tags = [''artist'' \<mapsto> ''Bob'']\<rparr>]"
    by (simp add: load_file_def example_defs)
  from d scenario_files have
    "main scenario_fs [] music_root broken_world =
       fix_album_artist_tag songs (py_print (FinishedScanning 2) w')"
    by (simp add: numeral_2_eq_2)
  with a b c' show ?thesis by simp
qed

text \<open>
  C10. With \<^verbatim>\<open>None\<close> for the filter, \<open>get_all_files\<close> on a directory that has an
  entry raises \<^verbatim>\<open>TypeError\<close> at the first entry: the comprehension calls the filter
  without looking at it. On an empty directory nothing calls the filter and the result is
  the empty list.
\<close>

theorem get_all_files_without_filter:
  assumes "resolve fs cwd dir_path = Inr (Dir entries)"
  shows "get_all_files fs cwd dir_path None =
           (if entries = [] then Inr [] else Inl (Raised TypeError []))"
proof (cases entries)
  case Nil
  with assms show ?thesis
    by (simp add: get_all_files.simps listdir_def)
next
  case (Cons x xs)
  with assms show ?thesis
    by (simp add: get_all_files.simps listdir_def call_filter_def)
qed

theorem get_all_files_without_filter_witness:
  "resolve scenario_fs [] music_root = Inr (Dir [(''a.mp3'', File), (''b.mp3'', File)])
   \<and> get_all_files scenario_fs [] music_root None = Inl (Raised TypeError [])
   \<and> resolve (Dir []) [] (Path True []) = Inr (Dir [])
   \<and> get_all_files (Dir []) [] (Path True []) None = Inr []"
proof -
  have h: "resolve (Dir []) [] (Path True []) = Inr (Dir [])"
    by (simp add: resolve_def)
  from get_all_files_without_filter[OF scenario_root] get_all_files_without_filter[OF h]
    scenario_root h
  show ?thesis by simp
qed

end
